theory Spec2Isabelle
  imports Complex_Main "HOL-Library.Product_Lexorder" "HOL-Library.Multiset" "HOL-Library.Log_Nat"
begin

section \<open>Values of the request body\<close>

text \<open>
  A request body is parsed JSON. A property that the body does not carry reads as
  \<open>undefined\<close>, which is \<open>None\<close> here; every other value is \<open>Some\<close> JSON value.
  Numbers are the parsed values; only whether a number is zero matters below.
\<close>

datatype json =
    JNull
  | JBool bool
  | JNum rat
  | JStr string
  | JArr "json list"
  | JObj "(string \<times> json) list"

text \<open>JavaScript's truthiness, as \<open>!x\<close>, \<open>!!x\<close> and \<open>if (x)\<close> use it.\<close>

fun truthy :: "json \<Rightarrow> bool" where
  "truthy JNull = False"
| "truthy (JBool b) = b"
| "truthy (JNum n) = (n \<noteq> 0)"
| "truthy (JStr s) = (s \<noteq> [])"
| "truthy (JArr xs) = True"
| "truthy (JObj kvs) = True"

fun js_truthy :: "json option \<Rightarrow> bool" where
  "js_truthy None = False"
| "js_truthy (Some v) = truthy v"

section \<open>The time-attack documents of server.js\<close>

type_synonym oid = string

record game =
  g_id :: oid
  title :: string
  gtype :: string
  difficulty :: string
  brief :: string
  published :: bool
  createdBy :: oid

text \<open>A game document after \<open>.select("-createdBy -published")\<close>.\<close>

record question_view =
  qv_id :: oid
  qv_title :: string
  qv_type :: string
  qv_difficulty :: string
  qv_brief :: string

datatype session_status = InProgress | Completed

record session =
  studentId :: oid
  questions :: "oid list"
  currentQuestionIndex :: nat
  score :: int
  startTime :: int
  endTime :: "int option"
  status :: session_status

record submission =
  gameId :: oid
  sub_studentId :: oid
  isCorrect :: bool
  submittedAt :: int

record lb_entry =
  lb_studentId :: oid
  lb_score :: int
  timeTakenMs :: int
  date :: int

text \<open>
  The collections the time-attack handlers touch. Sessions are found by their
  identifier; submissions and leaderboard entries are only ever appended.
\<close>

record db =
  games :: "game list"
  sessions :: "oid \<rightharpoonup> session"
  submissions :: "submission list"
  leaderboard :: "lb_entry list"

datatype response =
    Error nat string
  | Started oid "question_view option"
  | NextQuestion "question_view option"
  | Finished int int
  | Board "lb_entry list"

definition selectView :: "game \<Rightarrow> question_view" where
  "selectView g = \<lparr> qv_id = g_id g, qv_title = title g, qv_type = gtype g,
                    qv_difficulty = difficulty g, qv_brief = brief g \<rparr>"

definition findGameById :: "db \<Rightarrow> oid \<Rightarrow> game option" where
  "findGameById d i = find (\<lambda>g. g_id g = i) (games d)"

text \<open>
  The handler passes the \<open>sessionId\<close> of the body to \<open>TimeAttackSession.findById\<close> as it
  is, whatever its JSON type. A string of 24 hexadecimal digits is cast to the identifier
  it spells (in lower case) and looked up. Any other string fails the cast, which the
  handler's \<open>catch\<close> answers with status 500; a string of 12 characters is set apart,
  because some versions of the driver read it as 12 bytes of an identifier. What the
  driver makes of a value that is not a string (an array, an operator object, a number)
  is not decided here: it is the parameter \<open>driver\<close>, which answers with a failed cast,
  no document, or the identifier of the document it found.
\<close>

definition hexDigit :: "char \<Rightarrow> bool" where
  "hexDigit c = (c \<in> set ''0123456789abcdefABCDEF'')"

definition lowerHex :: "char \<Rightarrow> char" where
  "lowerHex c =
     (if c = CHR ''A'' then CHR ''a'' else if c = CHR ''B'' then CHR ''b''
      else if c = CHR ''C'' then CHR ''c'' else if c = CHR ''D'' then CHR ''d''
      else if c = CHR ''E'' then CHR ''e'' else if c = CHR ''F'' then CHR ''f'' else c)"

definition castObjectId :: "json \<Rightarrow> oid option" where
  "castObjectId v =
     (case v of
        JStr s \<Rightarrow> if length s = 24 \<and> list_all hexDigit s then Some (map lowerHex s) else None
      | _ \<Rightarrow> None)"

datatype lookup = CastError | NoDoc | Found oid

type_synonym driver = "json \<Rightarrow> (oid \<rightharpoonup> session) \<Rightarrow> lookup"

definition findById :: "driver \<Rightarrow> json \<Rightarrow> (oid \<rightharpoonup> session) \<Rightarrow> lookup" where
  "findById driver v m =
     (case castObjectId v of
        Some k \<Rightarrow> if m k = None then NoDoc else Found k
      | None \<Rightarrow>
         (case v of
            JStr s \<Rightarrow> if length s = 12 then driver v m else CastError
          | _ \<Rightarrow> driver v m))"

section \<open>POST /api/time-attack/start\<close>

definition TIME_ATTACK_QUESTION_COUNT :: nat where
  "TIME_ATTACK_QUESTION_COUNT = 5"

text \<open>A filter of the body is applied only when it is truthy: present and not empty.\<close>

definition filterSet :: "string option \<Rightarrow> bool" where
  "filterSet f = (case f of None \<Rightarrow> False | Some s \<Rightarrow> s \<noteq> [])"

definition matchQuery :: "string option \<Rightarrow> string option \<Rightarrow> game \<Rightarrow> bool" where
  "matchQuery ty di g =
     (published g \<and> (filterSet ty \<longrightarrow> Some (gtype g) = ty)
                  \<and> (filterSet di \<longrightarrow> Some (difficulty g) = di))"

definition matching :: "string option \<Rightarrow> string option \<Rightarrow> db \<Rightarrow> oid list" where
  "matching ty di d = map g_id (filter (matchQuery ty di) (games d))"

text \<open>
  The \<open>$sample\<close> stage draws at random. The draw is an input of the handler, a function
  from the size and the matching documents to the documents drawn; \<open>isSample n ms qs\<close>
  says that \<open>qs\<close> is a possible outcome of sampling \<open>n\<close> documents from \<open>ms\<close>: distinct
  documents of \<open>ms\<close>, \<open>n\<close> of them, or all when there are fewer.
\<close>

definition isSample :: "nat \<Rightarrow> oid list \<Rightarrow> oid list \<Rightarrow> bool" where
  "isSample n ms qs =
     (length qs = min n (length ms) \<and> distinct qs \<and> list_all (\<lambda>q. q \<in> set ms) qs)"

definition aggregateSample ::
  "(nat \<Rightarrow> oid list \<Rightarrow> oid list) \<Rightarrow> string option \<Rightarrow> string option \<Rightarrow> db \<Rightarrow> oid list" where
  "aggregateSample draw ty di d = draw TIME_ATTACK_QUESTION_COUNT (matching ty di d)"

definition newSession :: "oid \<Rightarrow> oid list \<Rightarrow> int \<Rightarrow> session" where
  "newSession user qs now =
     \<lparr> studentId = user, questions = qs, currentQuestionIndex = 0, score = 0,
       startTime = now, endTime = None, status = InProgress \<rparr>"

text \<open>
  \<open>start user ty di draw newId now d\<close>: the handler for the verified caller \<open>user\<close> and
  the two filters of the body, where \<open>draw\<close> is the random draw of the aggregation,
  \<open>newId\<close> the identifier given to the created session and \<open>now\<close> the clock.
\<close>

definition start ::
  "oid \<Rightarrow> string option \<Rightarrow> string option \<Rightarrow> (nat \<Rightarrow> oid list \<Rightarrow> oid list) \<Rightarrow> oid \<Rightarrow> int
     \<Rightarrow> db \<Rightarrow> db \<times> response" where
  "start user ty di draw newId now d =
     (let questionIds = aggregateSample draw ty di d
      in if length questionIds < 1 then
           (d, Error 404 ''Not enough questions available to start a Time Attack session.'')
         else
           let s = newSession user questionIds now;
               d' = d\<lparr> sessions := (sessions d)(newId \<mapsto> s) \<rparr>;
               firstQuestion = map_option selectView (findGameById d' (questions s ! 0))
           in (d', Started newId firstQuestion))"

section \<open>POST /api/time-attack/submit\<close>

definition notFound :: response where
  "notFound = Error 404 ''Active session not found''"

definition submitFailed :: response where
  "submitFailed = Error 500 ''Server error submitting answer''"

definition badRequest :: response where
  "badRequest = Error 400 ''sessionId and isCorrect are required''"

text \<open>
  \<open>submit driver user sessionId isCorrect now d\<close>: the handler for the verified caller
  \<open>user\<close> and the two properties of the body. A session whose cursor is outside its
  question sequence has no \<open>gameId\<close> for the submission document, which is required:
  creating it throws, nothing has been saved yet, and the answer is 500. \<open>now\<close> is the
  clock of the request, which stamps \<open>submittedAt\<close>, \<open>endTime\<close> and \<open>date\<close>.
\<close>

definition submit ::
  "driver \<Rightarrow> oid \<Rightarrow> json option \<Rightarrow> json option \<Rightarrow> int \<Rightarrow> db \<Rightarrow> db \<times> response" where
  "submit driver user sessionId isCorrectV now d =
     (case sessionId of
        None \<Rightarrow> (d, badRequest)
      | Some sid \<Rightarrow>
        if \<not> truthy sid \<or> isCorrectV = None then (d, badRequest)
        else
          (case findById driver sid (sessions d) of
            CastError \<Rightarrow> (d, submitFailed)
          | NoDoc \<Rightarrow> (d, notFound)
          | Found k \<Rightarrow>
             (case sessions d k of
                None \<Rightarrow> (d, notFound)
              | Some s0 \<Rightarrow>
                  if studentId s0 \<noteq> user \<or> status s0 \<noteq> InProgress then (d, notFound)
                  else
                    let s1 = (if js_truthy isCorrectV then s0\<lparr> score := score s0 + 10 \<rparr> else s0)
                    in if \<not> currentQuestionIndex s1 < length (questions s1) then (d, submitFailed)
                    else
                      let d1 = d\<lparr> submissions := submissions d @
                                   [\<lparr> gameId = questions s1 ! currentQuestionIndex s1,
                                      sub_studentId = user,
                                      isCorrect = js_truthy isCorrectV,
                                      submittedAt = now \<rparr>] \<rparr>;
                          s2 = s1\<lparr> currentQuestionIndex := currentQuestionIndex s1 + 1 \<rparr>
                      in if currentQuestionIndex s2 \<ge> length (questions s2) then
                           let s3 = s2\<lparr> status := Completed, endTime := Some now \<rparr>;
                               taken = now - startTime s3;
                               d2 = d1\<lparr> leaderboard := leaderboard d1 @
                                      [\<lparr> lb_studentId = user, lb_score = score s3,
                                         timeTakenMs = taken, date = now \<rparr>] \<rparr>;
                               d3 = d2\<lparr> sessions := (sessions d2)(k \<mapsto> s3) \<rparr>
                           in (d3, Finished (score s3) taken)
                         else
                           let d2 = d1\<lparr> sessions := (sessions d1)(k \<mapsto> s2) \<rparr>
                           in (d2, NextQuestion (map_option selectView
                                 (findGameById d2 (questions s2 ! currentQuestionIndex s2)))))))"

section \<open>GET /api/leaderboard/time-attack\<close>

text \<open>
  \<open>sort({score: -1, timeTakenMs: 1})\<close>: descending score, then ascending time. The
  order of entries equal in both keeps the stored order here; no statement below
  depends on it. \<open>populate\<close> only adds the student's name to each entry and is left out.
\<close>

definition rankKey :: "lb_entry \<Rightarrow> int \<times> int" where
  "rankKey e = (- lb_score e, timeTakenMs e)"

definition leaderboardTimeAttack :: "db \<Rightarrow> response" where
  "leaderboardTimeAttack d = Board (take 10 (sort_key rankKey (leaderboard d)))"

text \<open>
  Ranking in the words of the specification: \<open>a\<close> outranks \<open>b\<close> when its score is
  higher, or the scores are equal and its time is lower. Two entries are tied when both
  are equal. \<open>topTen\<close> is the list that the endpoint returns.
\<close>

definition outranks :: "lb_entry \<Rightarrow> lb_entry \<Rightarrow> bool" where
  "outranks a b = (lb_score a > lb_score b \<or>
                   (lb_score a = lb_score b \<and> timeTakenMs a < timeTakenMs b))"

definition tied :: "lb_entry \<Rightarrow> lb_entry \<Rightarrow> bool" where
  "tied a b = (lb_score a = lb_score b \<and> timeTakenMs a = timeTakenMs b)"

definition topTen :: "db \<Rightarrow> lb_entry list" where
  "topTen d = (case leaderboardTimeAttack d of Board es \<Rightarrow> es | _ \<Rightarrow> [])"

section \<open>The protocol as a transition system\<close>

text \<open>A submission is accepted when the handler answers with one of its two \<open>ok\<close> bodies.\<close>

definition accepted :: "response \<Rightarrow> bool" where
  "accepted r = (case r of NextQuestion q \<Rightarrow> True | Finished f t \<Rightarrow> True | _ \<Rightarrow> False)"

text \<open>What an accepted submission does to the session document.\<close>

definition applyAnswer :: "json option \<Rightarrow> int \<Rightarrow> session \<Rightarrow> session" where
  "applyAnswer ic now s =
     (let s2 = s\<lparr> score := score s + (if js_truthy ic then 10 else 0),
                  currentQuestionIndex := currentQuestionIndex s + 1 \<rparr>
      in if currentQuestionIndex s2 \<ge> length (questions s2)
         then s2\<lparr> status := Completed, endTime := Some now \<rparr> else s2)"

text \<open>
  The states of the database: it starts with some catalogue of games and no session,
  submission or leaderboard entry; other endpoints change the catalogue; \<open>start\<close> runs
  with a possible draw and a fresh identifier; \<open>submit\<close> runs with any caller and body,
  whatever the driver makes of the body's \<open>sessionId\<close>.
  Requests are handled one after the other.
\<close>

inductive reachable :: "db \<Rightarrow> bool" where
  initial: "reachable \<lparr> games = gs, sessions = Map.empty, submissions = [], leaderboard = [] \<rparr>"
| catalogue: "reachable d \<Longrightarrow> reachable (d\<lparr> games := gs \<rparr>)"
| started: "reachable d
            \<Longrightarrow> isSample TIME_ATTACK_QUESTION_COUNT (matching ty di d) (aggregateSample draw ty di d)
            \<Longrightarrow> sessions d newId = None
            \<Longrightarrow> reachable (fst (start u ty di draw newId now d))"
| submitted: "reachable d \<Longrightarrow> reachable (fst (submit driver u sid ic now d))"

text \<open>The cursor invariant of a session.\<close>

definition cursorOk :: "session \<Rightarrow> bool" where
  "cursorOk s = (currentQuestionIndex s \<le> length (questions s) \<and>
                 (status s = Completed) = (currentQuestionIndex s = length (questions s)))"

text \<open>
  A student answering a session: one submission after the other, each with the value of
  \<open>isCorrect\<close> and the clock of that request. \<open>points\<close> is 10 for each truthy answer.
\<close>

fun submitAll ::
  "driver \<Rightarrow> oid \<Rightarrow> json option \<Rightarrow> (json option \<times> int) list \<Rightarrow> db \<Rightarrow> db \<times> response list" where
  "submitAll driver u sid [] d = (d, [])"
| "submitAll driver u sid ((ic, now) # rest) d =
     (let (d1, r) = submit driver u sid ic now d;
          (d2, rs) = submitAll driver u sid rest d1
      in (d2, r # rs))"

definition points :: "(json option \<times> int) list \<Rightarrow> int" where
  "points answers = 10 * int (length (filter (\<lambda>a. js_truthy (fst a)) answers))"

section \<open>A running example\<close>

text \<open>
  Three published questions, one student, and the session that \<open>start\<close> creates for that
  student from all three.
\<close>

definition exUser :: oid where "exUser = ''64b000000000000000000a01''"

definition exOther :: oid where "exOther = ''64b000000000000000000a02''"

definition exSid :: oid where "exSid = ''64b0000000000000000005e1''"

text \<open>
  A driver for the examples: it reads an array of one identifier string as that
  identifier, and fails the cast of everything else.
\<close>

definition exDriver :: driver where
  "exDriver v m =
     (case v of
        JArr [JStr h] \<Rightarrow>
          (case castObjectId (JStr h) of
             None \<Rightarrow> CastError
           | Some k \<Rightarrow> if m k = None then NoDoc else Found k)
      | _ \<Rightarrow> CastError)"

definition exGame :: "oid \<Rightarrow> game" where
  "exGame i = \<lparr> g_id = i, title = ''Joins'', gtype = ''quiz'', difficulty = ''easy'',
                brief = ''Pick the join'', published = True, createdBy = ''64b000000000000000000ad1'' \<rparr>"

definition exQuestions :: "oid list" where
  "exQuestions = [''64b000000000000000000001'', ''64b000000000000000000002'',
                  ''64b000000000000000000003'']"

definition exDb0 :: db where
  "exDb0 = \<lparr> games = map exGame exQuestions, sessions = Map.empty,
             submissions = [], leaderboard = [] \<rparr>"

definition exDb1 :: db where
  "exDb1 = fst (start exUser None None take exSid 1000 exDb0)"

definition exAnswers :: "(json option \<times> int) list" where
  "exAnswers = [(Some (JBool True), 2000), (Some (JBool True), 3000), (Some (JBool True), 4000)]"

definition exBoard :: db where
  "exBoard = \<lparr> games = [], sessions = Map.empty, submissions = [],
               leaderboard = [\<lparr> lb_studentId = exUser, lb_score = 30, timeTakenMs = 3000, date = 4000 \<rparr>,
                              \<lparr> lb_studentId = exOther, lb_score = 30, timeTakenMs = 3000, date = 9000 \<rparr>,
                              \<lparr> lb_studentId = exOther, lb_score = 40, timeTakenMs = 8000, date = 9500 \<rparr>] \<rparr>"

section \<open>Numbers of the play engine\<close>

text \<open>
  The engine scores with JavaScript numbers, which are IEEE doubles. A finite double is
  modelled by the rational it denotes, and \<open>NaN\<close> and the two infinities are kept apart.
  The sign of zero is not modelled: no divisor below is a computed zero.

  \<open>toDouble\<close> rounds a rational to the nearest double, a tie going to the even
  significand: the significand has 53 bits, the least exponent is \<open>-1022\<close> (below it the
  spacing stays that of the subnormal numbers), and a result of \<open>2 ^ 1024\<close> or more is
  infinite. \<open>expo x\<close> is the exponent of a positive \<open>x\<close>: the \<open>e\<close> with
  \<open>2 ^ e \<le> x < 2 ^ (e + 1)\<close>.
\<close>

datatype jsnum = Finite rat | NaN | PosInf | NegInf

definition expo :: "rat \<Rightarrow> int" where
  "expo x = (if 1 \<le> x then bitlen \<lfloor>x\<rfloor> - 1 else - bitlen (\<lceil>1 / x\<rceil> - 1))"

definition roundHalfEven :: "rat \<Rightarrow> int" where
  "roundHalfEven y =
     (let f = \<lfloor>y\<rfloor>; r = y - of_int f
      in if r < 1 / 2 then f else if 1 / 2 < r then f + 1 else if even f then f else f + 1)"

definition overflow :: rat where
  "overflow = 2 powi 1024"

definition toDouble :: "rat \<Rightarrow> jsnum" where
  "toDouble x =
     (if x = 0 then Finite 0
      else
        let a = \<bar>x\<bar>;
            e = max (expo a) (- 1022);
            q = 2 powi (e - 52);
            y = of_int (roundHalfEven (a / q)) * q
        in if overflow \<le> y then (if 0 < x then PosInf else NegInf)
           else Finite (if 0 < x then y else - y))"

fun jsNegate :: "jsnum \<Rightarrow> jsnum" where
  "jsNegate (Finite x) = Finite (- x)"
| "jsNegate NaN = NaN"
| "jsNegate PosInf = NegInf"
| "jsNegate NegInf = PosInf"

text \<open>
  Division and multiplication of doubles: the exact result, rounded to a double.
\<close>

fun jsDivide :: "jsnum \<Rightarrow> jsnum \<Rightarrow> jsnum" where
  "jsDivide (Finite x) (Finite y) =
     (if y \<noteq> 0 then toDouble (x / y)
      else if x = 0 then NaN else if 0 < x then PosInf else NegInf)"
| "jsDivide (Finite x) PosInf = Finite 0"
| "jsDivide (Finite x) NegInf = Finite 0"
| "jsDivide PosInf (Finite y) = (if 0 \<le> y then PosInf else NegInf)"
| "jsDivide NegInf (Finite y) = (if 0 \<le> y then NegInf else PosInf)"
| "jsDivide a b = NaN"

fun jsTimes :: "jsnum \<Rightarrow> jsnum \<Rightarrow> jsnum" where
  "jsTimes (Finite x) (Finite y) = toDouble (x * y)"
| "jsTimes NaN b = NaN"
| "jsTimes a NaN = NaN"
| "jsTimes PosInf (Finite y) = (if y = 0 then NaN else if 0 < y then PosInf else NegInf)"
| "jsTimes NegInf (Finite y) = (if y = 0 then NaN else if 0 < y then NegInf else PosInf)"
| "jsTimes (Finite x) PosInf = (if x = 0 then NaN else if 0 < x then PosInf else NegInf)"
| "jsTimes (Finite x) NegInf = (if x = 0 then NaN else if 0 < x then NegInf else PosInf)"
| "jsTimes PosInf PosInf = PosInf"
| "jsTimes NegInf NegInf = PosInf"
| "jsTimes PosInf NegInf = NegInf"
| "jsTimes NegInf PosInf = NegInf"

text \<open>
  \<open>Math.round\<close>: the nearest integer, a half rounding up. The result of rounding a
  double is a double.
\<close>

fun mathRound :: "jsnum \<Rightarrow> jsnum" where
  "mathRound (Finite x) = Finite (of_int \<lfloor>x + 1 / 2\<rfloor>)"
| "mathRound a = a"

text \<open>
  A length or a count of elements is below \<open>2 ^ 32\<close> and is a double as it is. An integer
  that was read from storage is the double nearest to it.
\<close>

definition ofNat :: "nat \<Rightarrow> jsnum" where
  "ofNat n = Finite (of_nat n)"

definition ofInt :: "int \<Rightarrow> jsnum" where
  "ofInt i = toDouble (of_int i)"

section \<open>Result records of student-game-engine.js\<close>

text \<open>
  The fields of a stored game that every engine and \<open>saveResult\<close> read. A \<open>duration\<close> that
  is missing reads as \<open>None\<close>.
\<close>

record client_game =
  c_id :: string
  c_title :: string
  c_type :: string
  duration :: "int option"
  totalPoints :: int

record activity =
  a_id :: string
  a_gameId :: string
  a_gameTitle :: string
  a_gameType :: string
  studentEmail :: string
  studentName :: string
  a_score :: jsnum
  rawScore :: jsnum
  timeTaken :: int
  completedAt :: int
  a_status :: string

text \<open>
  What a handler reads from its surroundings: the clock, the random suffix of the record
  identifier, the \<open>doubleXP\<close> flag and the student of local storage.
\<close>

record env =
  clock :: int
  freshId :: string
  doubleXP :: bool
  currentUserEmail :: string
  currentUserName :: string

text \<open>\<open>saveResult\<close> appends one record to the \<open>student_activities\<close> list of local storage.\<close>

definition saveResult ::
  "env \<Rightarrow> 'a client_game_scheme \<Rightarrow> jsnum \<Rightarrow> jsnum \<Rightarrow> int \<Rightarrow> activity list \<Rightarrow> activity list" where
  "saveResult e game sc tot startT acts =
     (let timeTaken = (clock e - startT) div 1000;
          percentage = mathRound (jsTimes (jsDivide sc tot) (Finite 100));
          raw = (if doubleXP e then jsTimes sc (Finite 2) else sc);
          act = \<lparr> a_id = freshId e, a_gameId = c_id game, a_gameTitle = c_title game,
                  a_gameType = c_type game, studentEmail = currentUserEmail e,
                  studentName = currentUserName e, a_score = percentage, rawScore = raw,
                  timeTaken = timeTaken, completedAt = clock e, a_status = ''completed'' \<rparr>
      in acts @ [act])"

text \<open>\<open>game.duration || 10\<close>: a missing or zero duration is replaced by the default.\<close>

definition durationOr :: "int option \<Rightarrow> int \<Rightarrow> int" where
  "durationOr d dflt = (case d of None \<Rightarrow> dflt | Some m \<Rightarrow> if m = 0 then dflt else m)"


section \<open>Fill-in: faculty-create-fillin.js and \<open>playFillIn\<close>\<close>

record fillin_game = client_game +
  content :: string
  blanks :: "string list option"

text \<open>
  The form finds the blanks with \<open>/\[(.*?)\]/g\<close>. A match starts at an opening bracket
  and ends at the first closing bracket after it, with no line terminator in between;
  the search goes on after the match, or one character further when no match starts
  here. \<open>closeBlank\<close> reads the text after an opening bracket and gives the word and the
  text after the closing bracket.
\<close>

definition lineTerminator :: "char \<Rightarrow> bool" where
  "lineTerminator c = (c = CHR 0x0A \<or> c = CHR 0x0D)"

fun closeBlank :: "string \<Rightarrow> (string \<times> string) option" where
  "closeBlank [] = None"
| "closeBlank (c # cs) =
     (if c = CHR '']'' then Some ([], cs)
      else if lineTerminator c then None
      else (case closeBlank cs of None \<Rightarrow> None | Some (w, r) \<Rightarrow> Some (c # w, r)))"

function matchBlanks :: "string \<Rightarrow> string list" where
  "matchBlanks [] = []"
| "matchBlanks (c # cs) =
     (if c = CHR ''['' then
        (case closeBlank cs of
           Some (w, r) \<Rightarrow> w # matchBlanks r
         | None \<Rightarrow> matchBlanks cs)
      else matchBlanks cs)"
  by pat_completeness auto
termination
proof (relation "measure length")
  show "wf (measure length)" by simp
next
  fix c :: char and cs :: string and x2 :: "string \<times> string" and w r :: string
  assume "closeBlank cs = Some x2" and "(w, r) = x2"
  then have "closeBlank cs = Some (w, r)" by simp
  then have "length r < length cs"
    by (induction cs arbitrary: w) (auto split: if_splits option.splits)
  then show "(r, c # cs) \<in> measure length" by simp
qed simp_all

text \<open>
  The submit handler of the form: no game is stored when the text has no blank.
  \<open>ident\<close> and \<open>created\<close> are the clock readings that become \<open>id\<close> and \<open>createdAt\<close>, which
  the engine does not read.
\<close>

definition fillinForm_submit :: "string \<Rightarrow> string \<Rightarrow> int option \<Rightarrow> string \<Rightarrow> fillin_game option" where
  "fillinForm_submit txt ttl dur ident =
     (let bs = matchBlanks txt
      in if bs = [] then None
         else Some \<lparr> c_id = ident, c_title = ttl, c_type = ''syntax-fill'', duration = dur,
                     totalPoints = int (length bs) * 10, content = txt, blanks = Some bs \<rparr>)"

text \<open>
  \<open>checkFillIn\<close>: the loop over \<open>game.blanks || []\<close> counts the blanks whose placed word is
  the stored answer; \<open>filled\<close> is the object \<open>filledBlanks\<close>, from blank index to placed word.
\<close>

definition blanksOr :: "fillin_game \<Rightarrow> string list" where
  "blanksOr g = (case blanks g of None \<Rightarrow> [] | Some bs \<Rightarrow> bs)"

fun countCorrect :: "(nat \<rightharpoonup> string) \<Rightarrow> nat \<Rightarrow> string list \<Rightarrow> nat \<Rightarrow> nat" where
  "countCorrect filled idx [] correct = correct"
| "countCorrect filled idx (ans # rest) correct =
     countCorrect filled (idx + 1) rest (if filled idx = Some ans then correct + 1 else correct)"

definition fillInScore :: "fillin_game \<Rightarrow> (nat \<rightharpoonup> string) \<Rightarrow> jsnum" where
  "fillInScore g filled =
     (let correct = countCorrect filled 0 (blanksOr g) 0;
          n = (case blanks g of None \<Rightarrow> 1 | Some bs \<Rightarrow> length bs)
      in mathRound (jsTimes (jsDivide (ofNat correct) (ofNat n)) (ofInt (totalPoints g))))"

definition checkFillIn ::
  "env \<Rightarrow> fillin_game \<Rightarrow> (nat \<rightharpoonup> string) \<Rightarrow> int \<Rightarrow> activity list \<Rightarrow> activity list" where
  "checkFillIn e g filled startT acts =
     saveResult e g (fillInScore g filled) (ofInt (totalPoints g)) startT acts"

text \<open>The count of the claim: the blanks whose placed word equals the stored answer.\<close>

definition correctBlanks :: "string list \<Rightarrow> (nat \<rightharpoonup> string) \<Rightarrow> nat" where
  "correctBlanks bs filled = length (filter (\<lambda>i. filled i = Some (bs ! i)) [0..<length bs])"


section \<open>Unjumble and the countdown: \<open>playUnjumble\<close>, \<open>startTimer\<close>\<close>

record unjumble_game = client_game +
  lines :: "string list option"

datatype screen = Playing | ResultShown

text \<open>
  The state of one play: the variables of \<open>playUnjumble\<close> and of \<open>startTimer\<close>, the list
  of local storage, and what the container shows. \<open>timerInterval\<close> holds while the
  interval that \<open>startTimer\<close> registered has not been cleared; \<open>timer\<close> is the seconds left.
\<close>

record unjumble_play =
  uj_game :: unjumble_game
  uj_startTime :: int
  shuffledLines :: "(string \<times> nat) list"
  selectedIdx :: "nat option"
  timer :: int
  timerInterval :: bool
  activities :: "activity list"
  container :: screen

text \<open>
  \<open>playUnjumble\<close> with the outcome of the shuffle, then \<open>startTimer(game.duration || 10, ...)\<close>.
\<close>

definition playUnjumble ::
  "unjumble_game \<Rightarrow> (string \<times> nat) list \<Rightarrow> int \<Rightarrow> activity list \<Rightarrow> unjumble_play" where
  "playUnjumble g shuffled now acts =
     \<lparr> uj_game = g, uj_startTime = now, shuffledLines = shuffled, selectedIdx = None,
       timer = durationOr (duration g) 10 * 60, timerInterval = True,
       activities = acts, container = Playing \<rparr>"

definition moveLine :: "nat \<Rightarrow> unjumble_play \<Rightarrow> unjumble_play" where
  "moveLine idx st =
     (case selectedIdx st of
        None \<Rightarrow> st\<lparr> selectedIdx := Some idx \<rparr>
      | Some sel \<Rightarrow>
          st\<lparr> shuffledLines := (shuffledLines st)[sel := shuffledLines st ! idx,
                                                   idx := shuffledLines st ! sel],
              selectedIdx := None \<rparr>)"

fun countInPlace :: "nat \<Rightarrow> (string \<times> nat) list \<Rightarrow> nat \<Rightarrow> nat" where
  "countInPlace idx [] correct = correct"
| "countInPlace idx (line # rest) correct =
     countInPlace (idx + 1) rest (if snd line = idx then correct + 1 else correct)"

definition unjumbleScore :: "unjumble_play \<Rightarrow> jsnum" where
  "unjumbleScore st =
     (let correct = countInPlace 0 (shuffledLines st) 0;
          n = (case lines (uj_game st) of None \<Rightarrow> 1 | Some ls \<Rightarrow> length ls);
          accuracy = jsDivide (ofNat correct) (ofNat n)
      in mathRound (jsTimes accuracy (ofInt (totalPoints (uj_game st)))))"

text \<open>
  \<open>checkUnjumble\<close> saves the result and shows it. It does not touch the interval.
\<close>

definition checkUnjumble :: "env \<Rightarrow> unjumble_play \<Rightarrow> unjumble_play" where
  "checkUnjumble e st =
     st\<lparr> activities := saveResult e (uj_game st) (unjumbleScore st)
                          (ofInt (totalPoints (uj_game st))) (uj_startTime st) (activities st),
         container := ResultShown \<rparr>"

text \<open>
  The callback of the interval, once a second: count down, and below zero clear the
  interval and call \<open>onFinish\<close>, which is \<open>checkUnjumble\<close>.
\<close>

definition timerCallback :: "env \<Rightarrow> unjumble_play \<Rightarrow> unjumble_play" where
  "timerCallback e st =
     (let st1 = st\<lparr> timer := timer st - 1 \<rparr>
      in if timer st1 < 0 then checkUnjumble e (st1\<lparr> timerInterval := False \<rparr>) else st1)"

text \<open>
  What can happen to a play: the interval fires, if it is still registered, or the
  student clicks a line or the submit button, if the container still shows them (the
  result screen replaces both).
\<close>

datatype event = Tick | ClickSubmit | ClickLine nat

fun step :: "env \<Rightarrow> event \<Rightarrow> unjumble_play \<Rightarrow> unjumble_play" where
  "step e Tick st = (if timerInterval st then timerCallback e st else st)"
| "step e ClickSubmit st = (if container st = Playing then checkUnjumble e st else st)"
| "step e (ClickLine i) st =
     (if container st = Playing \<and> i < length (shuffledLines st) then moveLine i st else st)"

fun run :: "(env \<times> event) list \<Rightarrow> unjumble_play \<Rightarrow> unjumble_play" where
  "run [] st = st"
| "run ((e, ev) # rest) st = run rest (step e ev st)"

section \<open>Quiz: faculty-create-quiz.js and \<open>playQuiz\<close>\<close>

text \<open>
  The form stores each question as an object with the properties \<open>text\<close>, \<open>options\<close>,
  \<open>correctIndex\<close> and \<open>points\<close>. The objects are kept as the JSON that local storage
  holds, so that the engine reads them by property name. A number that \<open>parseInt\<close>
  could not read is \<open>NaN\<close>, which is stored as \<open>null\<close>.
\<close>

record quiz_field =
  f_text :: string
  f_opts :: "string list"
  f_correct :: "nat option"
  f_points :: "int option"

definition numOrNull :: "int option \<Rightarrow> json" where
  "numOrNull n = (case n of None \<Rightarrow> JNull | Some i \<Rightarrow> JNum (of_int i))"

definition parseQuestion :: "quiz_field \<Rightarrow> json" where
  "parseQuestion f =
     JObj [(''text'', JStr (f_text f)),
           (''options'', JArr (map JStr (filter (\<lambda>t. t \<noteq> []) (f_opts f)))),
           (''correctIndex'', numOrNull (map_option int (f_correct f))),
           (''points'', numOrNull (f_points f))]"

record quiz_game = client_game +
  quizQuestions :: "json list option"

definition quizForm_submit ::
  "quiz_field list \<Rightarrow> string \<Rightarrow> int option \<Rightarrow> int \<Rightarrow> string \<Rightarrow> quiz_game option" where
  "quizForm_submit nodes ttl dur pts ident =
     (let parsedQuestions = map parseQuestion nodes
      in if length parsedQuestions = 0 then None
         else Some \<lparr> c_id = ident, c_title = ttl, c_type = ''quiz'', duration = dur,
                     totalPoints = pts, quizQuestions = Some parsedQuestions \<rparr>)"

text \<open>
  Reading a property: \<open>undefined\<close> (\<open>None\<close>) when the object does not have it. Reading
  from \<open>null\<close> throws.
\<close>

datatype js_error = TypeError

fun getProp :: "json \<Rightarrow> string \<Rightarrow> js_error + json option" where
  "getProp (JObj kvs) name = Inr (map_of kvs name)"
| "getProp JNull name = Inl TypeError"
| "getProp v name = Inr None"

text \<open>\<open>selectedIndex === x\<close> for the number that the clicked button passes.\<close>

definition strictEqualsIndex :: "nat \<Rightarrow> json option \<Rightarrow> bool" where
  "strictEqualsIndex selectedIndex x = (x = Some (JNum (of_nat selectedIndex)))"

record quiz_play =
  qz_game :: quiz_game
  qz_startTime :: int
  qz_index :: nat
  qz_score :: int
  qz_activities :: "activity list"
  qz_container :: screen

definition questionsOr :: "quiz_game \<Rightarrow> json list" where
  "questionsOr g = (case quizQuestions g of None \<Rightarrow> [] | Some qs \<Rightarrow> qs)"

definition quizFinish :: "env \<Rightarrow> quiz_play \<Rightarrow> quiz_play" where
  "quizFinish e st =
     (let tot = ofNat (length (questionsOr (qz_game st)) * 10)
      in st\<lparr> qz_activities := saveResult e (qz_game st) (ofInt (qz_score st)) tot
                                   (qz_startTime st) (qz_activities st),
             qz_container := ResultShown \<rparr>)"

definition quizRender :: "env \<Rightarrow> quiz_play \<Rightarrow> quiz_play" where
  "quizRender e st =
     (if qz_index st \<ge> length (questionsOr (qz_game st)) then quizFinish e st else st)"

definition playQuiz :: "env \<Rightarrow> quiz_game \<Rightarrow> activity list \<Rightarrow> quiz_play" where
  "playQuiz e g acts =
     quizRender e \<lparr> qz_game = g, qz_startTime = clock e, qz_index = 0, qz_score = 0,
                    qz_activities = acts, qz_container = Playing \<rparr>"

text \<open>
  \<open>handleAnswer\<close>: past the last question there is no question object and reading its
  property throws.
\<close>

definition handleAnswer :: "env \<Rightarrow> nat \<Rightarrow> quiz_play \<Rightarrow> js_error + quiz_play" where
  "handleAnswer e selectedIndex st =
     (if qz_index st < length (questionsOr (qz_game st)) then
        (case getProp (questionsOr (qz_game st) ! qz_index st) ''correct'' of
           Inl err \<Rightarrow> Inl err
         | Inr correct \<Rightarrow>
             let st1 = (if strictEqualsIndex selectedIndex correct
                        then st\<lparr> qz_score := qz_score st + 10 \<rparr> else st);
                 st2 = st1\<lparr> qz_index := qz_index st1 + 1 \<rparr>
             in Inr (quizRender e st2))
      else Inl TypeError)"

fun answerAll :: "env \<Rightarrow> nat list \<Rightarrow> quiz_play \<Rightarrow> js_error + quiz_play" where
  "answerAll e [] st = Inr st"
| "answerAll e (a # rest) st =
     (case handleAnswer e a st of Inl err \<Rightarrow> Inl err | Inr st' \<Rightarrow> answerAll e rest st')"

section \<open>Debug: \<open>playDebug\<close>\<close>

record debug_game = client_game +
  perfectCode :: "string option"
  buggyCode :: "string option"

text \<open>
  Modelled from the spec: \<open>calculateSimilarity\<close> is called by \<open>checkDebug\<close> and defined in
  none of the source files at hand. The specification asks for a normalized
  edit-distance-style comparison with values from 0 to 100: here the share of the longer
  text that the edit distance leaves untouched, in percent.
\<close>

fun editDistance :: "string \<Rightarrow> string \<Rightarrow> nat" where
  "editDistance [] ys = length ys"
| "editDistance (x # xs) [] = length (x # xs)"
| "editDistance (x # xs) (y # ys) =
     (if x = y then editDistance xs ys
      else 1 + min (editDistance xs ys) (min (editDistance xs (y # ys)) (editDistance (x # xs) ys)))"

definition calculateSimilarity :: "string \<Rightarrow> string \<Rightarrow> jsnum" where
  "calculateSimilarity a b =
     (let longer = max (length a) (length b)
      in if longer = 0 then Finite 100
         else mathRound (jsTimes (jsDivide (ofNat (longer - editDistance a b)) (ofNat longer))
                                 (Finite 100)))"

text \<open>
  \<open>checkDebug\<close>: nothing happens while the editor is not loaded (\<open>None\<close>); otherwise the
  similarity and the score, and the result is saved.
\<close>

definition codeOr :: "string option \<Rightarrow> string" where
  "codeOr c = (case c of None \<Rightarrow> [] | Some t \<Rightarrow> t)"

definition debugScore :: "debug_game \<Rightarrow> string \<Rightarrow> jsnum \<times> jsnum" where
  "debugScore g studentCode =
     (let similarity = calculateSimilarity studentCode (codeOr (perfectCode g));
          sc = mathRound (jsTimes (jsDivide similarity (Finite 100)) (ofInt (totalPoints g)))
      in (similarity, sc))"

definition checkDebug ::
  "env \<Rightarrow> debug_game \<Rightarrow> string option \<Rightarrow> int \<Rightarrow> activity list \<Rightarrow> activity list" where
  "checkDebug e g studentEditor startT acts =
     (case studentEditor of
        None \<Rightarrow> acts
      | Some studentCode \<Rightarrow>
          saveResult e g (snd (debugScore g studentCode)) (ofInt (totalPoints g)) startT acts)"

section \<open>Example games\<close>

definition exFillin :: fillin_game where
  "exFillin = \<lparr> c_id = ''1700000000000'', c_title = ''Declare'', c_type = ''syntax-fill'',
                duration = Some 5, totalPoints = 20, content = ''[int] x = [5];'',
                blanks = Some [''int'', ''5''] \<rparr>"

definition exDebug :: debug_game where
  "exDebug = \<lparr> c_id = ''lq1x2'', c_title = ''Adder'', c_type = ''bug-hunt'', duration = Some 15,
               totalPoints = 50, perfectCode = Some ''return a + b;'',
               buggyCode = Some ''return a - b;'' \<rparr>"

definition exEnv :: env where
  "exEnv = \<lparr> clock = 5000, freshId = ''lq1x3k2'', doubleXP = False,
             currentUserEmail = ''student@example.com'', currentUserName = ''Student'' \<rparr>"

definition exField :: quiz_field where
  "exField = \<lparr> f_text = ''2 + 2 = ?'', f_opts = [''3'', ''4'', [], []],
               f_correct = Some 1, f_points = Some 10 \<rparr>"

definition exQuiz :: quiz_game where
  "exQuiz = \<lparr> c_id = ''1700000000001'', c_title = ''Sums'', c_type = ''quiz'', duration = Some 5,
              totalPoints = 10, quizQuestions = Some [parseQuestion exField] \<rparr>"

definition exUnjumble :: unjumble_game where
  "exUnjumble = \<lparr> c_id = ''1700000000002'', c_title = ''Loop'', c_type = ''unjumble'',
                  duration = Some 1, totalPoints = 20,
                  lines = Some [''for (i = 0; i < n; i++)'', ''  sum += i;''] \<rparr>"

definition exShuffled :: "(string \<times> nat) list" where
  "exShuffled = [(''  sum += i;'', 1), (''for (i = 0; i < n; i++)'', 0)]"

section \<open>Properties of the time-attack protocol\<close>

lemma accepted_simps [simp]:
  "accepted (NextQuestion q)" "accepted (Finished f t)" "\<not> accepted (Error c m)"
  "\<not> accepted (Started i q)" "\<not> accepted (Board b)"
  by (simp_all add: accepted_def)

lemma submit_rejected_unchanged:
  "\<not> accepted (snd (submit driver u sid ic now d)) \<Longrightarrow> fst (submit driver u sid ic now d) = d"
  by (auto simp: submit_def Let_def notFound_def submitFailed_def badRequest_def
        split: option.splits if_splits lookup.splits)

lemma submit_accepted_iff:
  "accepted (snd (submit driver u sid ic now d)) \<longleftrightarrow>
     (\<exists>v k s. sid = Some v \<and> truthy v \<and> ic \<noteq> None \<and>
            findById driver v (sessions d) = Found k \<and>
            sessions d k = Some s \<and> studentId s = u \<and> status s = InProgress \<and>
            currentQuestionIndex s < length (questions s))"
  by (auto simp: submit_def Let_def notFound_def submitFailed_def badRequest_def
        split: option.splits if_splits lookup.splits)

lemma submit_accepted_sessions:
  assumes "sid = Some v" "truthy v" "ic \<noteq> None" "findById driver v (sessions d) = Found k"
    "sessions d k = Some s" "studentId s = u" "status s = InProgress"
    "currentQuestionIndex s < length (questions s)"
  shows "sessions (fst (submit driver u sid ic now d)) = (sessions d)(k \<mapsto> applyAnswer ic now s)"
  using assms
  by (auto simp: submit_def Let_def applyAnswer_def split: option.splits if_splits lookup.splits)

lemma cursorOk_newSession: "qs \<noteq> [] \<Longrightarrow> cursorOk (newSession u qs now)"
  by (auto simp: cursorOk_def newSession_def)

lemma cursorOk_applyAnswer:
  "status s = InProgress \<Longrightarrow> currentQuestionIndex s < length (questions s)
     \<Longrightarrow> cursorOk (applyAnswer ic now s)"
  by (auto simp: cursorOk_def applyAnswer_def Let_def)

lemma start_sessions:
  "sessions (fst (start u ty di draw newId now d)) =
     (if aggregateSample draw ty di d = [] then sessions d
      else (sessions d)(newId \<mapsto> newSession u (aggregateSample draw ty di d) now))"
  by (cases "aggregateSample draw ty di d") (simp_all add: start_def Let_def)

lemma submit_sessions_cases:
  "sessions (fst (submit driver u sid ic now d)) = sessions d \<or>
   (\<exists>k s. sessions d k = Some s \<and> status s = InProgress \<and>
      currentQuestionIndex s < length (questions s) \<and>
      sessions (fst (submit driver u sid ic now d)) = (sessions d)(k \<mapsto> applyAnswer ic now s))"
proof (cases "accepted (snd (submit driver u sid ic now d))")
  case True
  then show ?thesis
    unfolding submit_accepted_iff using submit_accepted_sessions by blast
next
  case False
  then show ?thesis by (simp add: submit_rejected_unchanged)
qed

lemma reachable_cursorOk:
  "reachable d \<Longrightarrow> sessions d k = Some s \<Longrightarrow> cursorOk s"
proof (induction arbitrary: k s rule: reachable.induct)
  case (initial gs)
  then show ?case by simp
next
  case (catalogue d gs)
  then show ?case by simp
next
  case (started d ty di draw newId u now)
  then show ?case
    by (auto simp: start_sessions cursorOk_newSession split: if_splits)
next
  case (submitted d driver u sid ic now)
  from submit_sessions_cases [of driver u sid ic now d] show ?case
  proof
    assume "sessions (fst (submit driver u sid ic now d)) = sessions d"
    with submitted show ?thesis by simp
  next
    assume "\<exists>k s. sessions d k = Some s \<and> status s = InProgress \<and>
      currentQuestionIndex s < length (questions s) \<and>
      sessions (fst (submit driver u sid ic now d)) = (sessions d)(k \<mapsto> applyAnswer ic now s)"
    then obtain k' s' where *: "sessions d k' = Some s'" "status s' = InProgress"
      "currentQuestionIndex s' < length (questions s')"
      "sessions (fst (submit driver u sid ic now d)) = (sessions d)(k' \<mapsto> applyAnswer ic now s')"
      by blast
    show ?thesis
    proof (cases "k = k'")
      case True
      with * submitted.prems have "s = applyAnswer ic now s'" by simp
      with * show ?thesis by (simp add: cursorOk_applyAnswer)
    next
      case False
      with * submitted show ?thesis by simp
    qed
  qed
qed

lemma exSid_cast: "castObjectId (JStr exSid) = Some exSid"
  by (simp add: castObjectId_def exSid_def hexDigit_def lowerHex_def)

lemma exSid_truthy: "truthy (JStr exSid)"
  by (simp add: exSid_def)

lemma exSid_bind: "Option.bind (Some (JStr exSid)) castObjectId = Some exSid"
  by (simp add: exSid_cast)

lemma exDb0_matching: "matching None None exDb0 = exQuestions"
  by (simp add: matching_def exDb0_def exQuestions_def matchQuery_def filterSet_def exGame_def)

lemma exDb0_sample: "aggregateSample take None None exDb0 = exQuestions"
  by (simp add: aggregateSample_def exDb0_matching TIME_ATTACK_QUESTION_COUNT_def)
    (simp add: exQuestions_def)

lemma exDb0_isSample:
  "isSample TIME_ATTACK_QUESTION_COUNT (matching None None exDb0)
     (aggregateSample take None None exDb0)"
  by (simp add: exDb0_sample exDb0_matching isSample_def TIME_ATTACK_QUESTION_COUNT_def)
    (simp add: exQuestions_def)

lemma exDb1_sessions:
  "sessions exDb1 = [exSid \<mapsto> newSession exUser exQuestions 1000]"
  by (simp add: exDb1_def start_sessions exDb0_sample) (simp add: exQuestions_def exDb0_def)

lemma exDb1_reachable: "reachable exDb1"
  unfolding exDb1_def
proof (rule reachable.started)
  show "reachable exDb0" unfolding exDb0_def by (rule reachable.initial)
  show "isSample TIME_ATTACK_QUESTION_COUNT (matching None None exDb0)
          (aggregateSample take None None exDb0)"
    by (rule exDb0_isSample)
  show "sessions exDb0 exSid = None" by (simp add: exDb0_def)
qed

lemma findById_cast:
  "castObjectId v = Some k \<Longrightarrow> findById driver v m = (if m k = None then NoDoc else Found k)"
  by (simp add: findById_def)

lemma exSid_found: "findById driver (JStr exSid) (sessions exDb1) = Found exSid"
  by (simp add: findById_cast [OF exSid_cast] exDb1_sessions)

lemma exDb1_session:
  "sessions exDb1 exSid = Some (newSession exUser exQuestions 1000)"
  "studentId (newSession exUser exQuestions 1000) = exUser"
  "status (newSession exUser exQuestions 1000) = InProgress"
  "currentQuestionIndex (newSession exUser exQuestions 1000)
     < length (questions (newSession exUser exQuestions 1000))"
  by (simp_all add: exDb1_sessions newSession_def exQuestions_def)

lemma exDb1_accepts:
  "accepted (snd (submit driver exUser (Some (JStr exSid)) (Some v) 2000 exDb1))"
  unfolding submit_accepted_iff
  using exSid_found [of driver] exSid_truthy exDb1_session by blast

lemma exArray_found: "findById exDriver (JArr [JStr exSid]) (sessions exDb1) = Found exSid"
proof -
  have "castObjectId (JArr [JStr exSid]) = None" by (simp add: castObjectId_def)
  then show ?thesis
    by (simp add: findById_def exDriver_def exSid_cast exDb1_sessions)
qed

lemma exArray_accepts:
  "accepted (snd (submit exDriver exUser (Some (JArr [JStr exSid])) (Some v) 2000 exDb1))"
  unfolding submit_accepted_iff
  using exArray_found exDb1_session by (intro exI [of _ "JArr [JStr exSid]"]) auto

text \<open>
  Claim C1. In every state the protocol can reach, each session's cursor is at most the
  length of its question sequence and the session is completed exactly when the cursor
  equals that length; and every accepted submission, whatever the type of its
  \<open>sessionId\<close> and whatever the driver makes of it, replaces the one in-progress session
  that the lookup found by one with the same questions and the cursor advanced by
  exactly 1, which is completed exactly when the new cursor equals the length.
\<close>

theorem cursor_advances_by_one:
  assumes "reachable d"
  shows "(\<forall>k s. sessions d k = Some s \<longrightarrow>
            currentQuestionIndex s \<le> length (questions s) \<and>
            ((status s = Completed) = (currentQuestionIndex s = length (questions s)))) \<and>
         (\<forall>driver u sid ic now. accepted (snd (submit driver u sid ic now d)) \<longrightarrow>
            (\<exists>v k s s'. sid = Some v \<and> findById driver v (sessions d) = Found k \<and>
               sessions d k = Some s \<and>
               sessions (fst (submit driver u sid ic now d)) = (sessions d)(k \<mapsto> s') \<and>
               status s = InProgress \<and>
               questions s' = questions s \<and>
               currentQuestionIndex s' = currentQuestionIndex s + 1 \<and>
               currentQuestionIndex s' \<le> length (questions s') \<and>
               ((status s' = Completed) = (currentQuestionIndex s' = length (questions s')))))"
proof (intro conjI allI impI)
  fix k s assume "sessions d k = Some s"
  with assms have "cursorOk s" by (rule reachable_cursorOk)
  then show "currentQuestionIndex s \<le> length (questions s)"
    and "(status s = Completed) = (currentQuestionIndex s = length (questions s))"
    by (simp_all add: cursorOk_def)
next
  fix driver u sid ic now
  assume "accepted (snd (submit driver u sid ic now d))"
  then obtain v k s where a: "sid = Some v" "truthy v" "ic \<noteq> None"
    "findById driver v (sessions d) = Found k"
    "sessions d k = Some s" "studentId s = u" "status s = InProgress"
    "currentQuestionIndex s < length (questions s)"
    unfolding submit_accepted_iff by blast
  let ?s' = "applyAnswer ic now s"
  have "sessions (fst (submit driver u sid ic now d)) = (sessions d)(k \<mapsto> ?s')"
    using a by (rule submit_accepted_sessions)
  moreover have "questions ?s' = questions s"
    "currentQuestionIndex ?s' = currentQuestionIndex s + 1"
    by (simp_all add: applyAnswer_def Let_def)
  moreover have "cursorOk ?s'" using a(7,8) by (rule cursorOk_applyAnswer)
  ultimately show "\<exists>v k s s'. sid = Some v \<and> findById driver v (sessions d) = Found k \<and>
               sessions d k = Some s \<and>
               sessions (fst (submit driver u sid ic now d)) = (sessions d)(k \<mapsto> s') \<and>
               status s = InProgress \<and>
               questions s' = questions s \<and>
               currentQuestionIndex s' = currentQuestionIndex s + 1 \<and>
               currentQuestionIndex s' \<le> length (questions s') \<and>
               ((status s' = Completed) = (currentQuestionIndex s' = length (questions s')))"
    using a unfolding cursorOk_def by blast
qed

theorem cursor_advances_by_one_witness:
  "reachable exDb1 \<and>
   accepted (snd (submit exDriver exUser (Some (JArr [JStr exSid])) (Some (JBool True)) 2000 exDb1)) \<and>
   (\<exists>v k s s'. Some (JArr [JStr exSid]) = Some v \<and>
      findById exDriver v (sessions exDb1) = Found k \<and> sessions exDb1 k = Some s \<and>
      sessions (fst (submit exDriver exUser (Some (JArr [JStr exSid])) (Some (JBool True)) 2000 exDb1))
        = (sessions exDb1)(k \<mapsto> s') \<and>
      status s = InProgress \<and> questions s' = questions s \<and>
      currentQuestionIndex s' = currentQuestionIndex s + 1 \<and>
      currentQuestionIndex s' \<le> length (questions s') \<and>
      ((status s' = Completed) = (currentQuestionIndex s' = length (questions s'))))"
  using cursor_advances_by_one [OF exDb1_reachable] exDb1_reachable
    exArray_accepts [of "JBool True"] by blast

lemma submit_accepted_submissions:
  assumes "sid = Some v" "truthy v" "ic \<noteq> None" "findById driver v (sessions d) = Found k"
    "sessions d k = Some s" "studentId s = u" "status s = InProgress"
    "currentQuestionIndex s < length (questions s)"
  shows "submissions (fst (submit driver u sid ic now d)) = submissions d @
           [\<lparr> gameId = questions s ! currentQuestionIndex s, sub_studentId = u,
              isCorrect = js_truthy ic, submittedAt = now \<rparr>]"
  using assms
  by (auto simp: submit_def Let_def split: option.splits if_splits lookup.splits)

lemma submit_accepted_leaderboard:
  assumes "sid = Some v" "truthy v" "ic \<noteq> None" "findById driver v (sessions d) = Found k"
    "sessions d k = Some s" "studentId s = u" "status s = InProgress"
    "currentQuestionIndex s < length (questions s)"
  shows "leaderboard (fst (submit driver u sid ic now d)) =
           (if Suc (currentQuestionIndex s) = length (questions s)
            then leaderboard d @
                   [\<lparr> lb_studentId = u, lb_score = score s + (if js_truthy ic then 10 else 0),
                      timeTakenMs = now - startTime s, date = now \<rparr>]
            else leaderboard d)"
  using assms
  by (auto simp: submit_def Let_def split: option.splits if_splits lookup.splits)

lemma submit_accepted_response:
  assumes "sid = Some v" "truthy v" "ic \<noteq> None" "findById driver v (sessions d) = Found k"
    "sessions d k = Some s" "studentId s = u" "status s = InProgress"
    "currentQuestionIndex s < length (questions s)"
  shows "snd (submit driver u sid ic now d) =
           (if Suc (currentQuestionIndex s) = length (questions s)
            then Finished (score s + (if js_truthy ic then 10 else 0)) (now - startTime s)
            else NextQuestion (map_option selectView
                   (findGameById d (questions s ! Suc (currentQuestionIndex s)))))"
  using assms
  by (auto simp: submit_def Let_def findGameById_def split: option.splits if_splits lookup.splits)

lemma submit_games: "games (fst (submit driver u sid ic now d)) = games d"
  by (auto simp: submit_def Let_def split: option.splits if_splits lookup.splits)

text \<open>
  Claim C2, amended. A submission that passes the validation of the body and whose
  \<open>sessionId\<close> the lookup can cast, and finds no session for it or one that is owned by
  another student or already completed, is answered 404 and changes nothing in the
  database. A string of 24 hexadecimal digits is always cast, and found or not by the
  identifier it spells. When the cast fails the answer is 500, and nothing changes
  either. A completed session is never changed by any later submission, so it is
  completed at most once.
\<close>

theorem submit_rejects_unknown_session:
  assumes "truthy v" and "ic \<noteq> None"
    and "findById driver v (sessions d) = NoDoc \<or>
         (\<exists>k s. findById driver v (sessions d) = Found k \<and> sessions d k = Some s \<and>
                (studentId s \<noteq> u \<or> status s = Completed))"
  shows "submit driver u (Some v) ic now d = (d, Error 404 ''Active session not found'') \<and>
         (\<forall>h. length h = 24 \<and> list_all hexDigit h \<longrightarrow>
            findById driver (JStr h) (sessions d)
              = (if sessions d (map lowerHex h) = None then NoDoc else Found (map lowerHex h))) \<and>
         (\<forall>u' v' ic'. findById driver v' (sessions d) = CastError \<and> truthy v' \<and> ic' \<noteq> (None :: json option) \<longrightarrow>
            submit driver u' (Some v') ic' now d
              = (d, Error 500 ''Server error submitting answer'')) \<and>
         (\<forall>k s driver' u' sid' ic' now'. sessions d k = Some s \<and> status s = Completed \<longrightarrow>
            sessions (fst (submit driver' u' sid' ic' now' d)) k = Some s)"
proof (intro conjI allI impI)
  show "submit driver u (Some v) ic now d = (d, Error 404 ''Active session not found'')"
    using assms
    by (auto simp: submit_def notFound_def split: session_status.splits)
next
  fix h assume "length h = 24 \<and> list_all hexDigit h"
  then show "findById driver (JStr h) (sessions d)
              = (if sessions d (map lowerHex h) = None then NoDoc else Found (map lowerHex h))"
    by (simp add: findById_def castObjectId_def)
next
  fix u' v' ic'
  assume "findById driver v' (sessions d) = CastError \<and> truthy v' \<and> ic' \<noteq> (None :: json option)"
  then show "submit driver u' (Some v') ic' now d
              = (d, Error 500 ''Server error submitting answer'')"
    by (auto simp: submit_def submitFailed_def)
next
  fix k s driver' u' sid' ic' now'
  assume c: "sessions d k = Some s \<and> status s = Completed"
  from submit_sessions_cases [of driver' u' sid' ic' now' d]
  show "sessions (fst (submit driver' u' sid' ic' now' d)) k = Some s"
    using c by auto
qed

theorem submit_rejects_unknown_session_witness:
  "truthy (JStr exSid) \<and> Some (JBool True) \<noteq> None \<and>
   findById exDriver (JStr exSid) (sessions exDb1) = Found exSid \<and>
   (\<exists>s. sessions exDb1 exSid = Some s \<and> studentId s \<noteq> exOther) \<and>
   submit exDriver exOther (Some (JStr exSid)) (Some (JBool True)) 2000 exDb1
     = (exDb1, Error 404 ''Active session not found'')"
proof -
  have s: "sessions exDb1 exSid = Some (newSession exUser exQuestions 1000)"
    "studentId (newSession exUser exQuestions 1000) \<noteq> exOther"
    by (simp_all add: exDb1_sessions newSession_def exUser_def exOther_def)
  then have h: "findById exDriver (JStr exSid) (sessions exDb1) = NoDoc \<or>
     (\<exists>k s. findById exDriver (JStr exSid) (sessions exDb1) = Found k \<and> sessions exDb1 k = Some s \<and>
            (studentId s \<noteq> exOther \<or> status s = Completed))"
    using exSid_found [of exDriver] by blast
  have i: "Some (JBool True) \<noteq> None" by simp
  from submit_rejects_unknown_session [OF exSid_truthy i h, of 2000]
  show ?thesis using s exSid_truthy exSid_found [of exDriver] by blast
qed

text \<open>
  The claim as written promises 404 for every submission that names an absent session.
  No session has the identifier \<open>not-an-id\<close>, the body is complete, and the answer is 500:
  the string cannot be cast to an identifier, and the lookup throws.
\<close>

theorem malformed_sessionId_is_500_not_404:
  "truthy (JStr ''not-an-id'') \<and> Some (JBool True) \<noteq> None \<and>
   sessions exDb1 ''not-an-id'' = None \<and>
   snd (submit exDriver exUser (Some (JStr ''not-an-id'')) (Some (JBool True)) 2000 exDb1)
     = Error 500 ''Server error submitting answer'' \<and>
   snd (submit exDriver exUser (Some (JStr ''not-an-id'')) (Some (JBool True)) 2000 exDb1)
     \<noteq> Error 404 ''Active session not found''"
  by (simp add: submit_def findById_def castObjectId_def submitFailed_def exDb1_sessions exSid_def)

text \<open>
  Claim C10, amended. The handler answers 400 exactly when \<open>sessionId\<close> is falsy
  (missing, \<open>null\<close>, \<open>false\<close>, \<open>0\<close> or the empty string) or \<open>isCorrect\<close> is missing. An
  accepted submission, whatever the type of its \<open>sessionId\<close>, adds 10 to the score of the
  session that the lookup found exactly when \<open>isCorrect\<close> is truthy, and logs a
  submission whose \<open>isCorrect\<close> is that truth value: the string \<open>"false"\<close> is truthy,
  while \<open>0\<close>, \<open>null\<close> and \<open>false\<close> are not.
\<close>

theorem submit_validation_and_scoring:
  "((snd (submit driver u sid ic now d) = Error 400 ''sessionId and isCorrect are required'')
     = (\<not> js_truthy sid \<or> ic = None)) \<and>
   (accepted (snd (submit driver u sid ic now d)) \<longrightarrow>
      (\<exists>v k s s'. sid = Some v \<and> findById driver v (sessions d) = Found k \<and>
         sessions d k = Some s \<and>
         sessions (fst (submit driver u sid ic now d)) k = Some s' \<and>
         score s' = score s + (if js_truthy ic then 10 else 0) \<and>
         submissions (fst (submit driver u sid ic now d)) = submissions d @
           [\<lparr> gameId = questions s ! currentQuestionIndex s, sub_studentId = u,
              isCorrect = js_truthy ic, submittedAt = now \<rparr>])) \<and>
   (js_truthy (Some (JStr ''false'')) \<and> \<not> js_truthy (Some (JNum 0)) \<and>
    \<not> js_truthy (Some JNull) \<and> \<not> js_truthy (Some (JBool False)))"
proof (intro conjI)
  show "(snd (submit driver u sid ic now d) = Error 400 ''sessionId and isCorrect are required'')
     = (\<not> js_truthy sid \<or> ic = None)"
    by (auto simp: submit_def Let_def notFound_def submitFailed_def badRequest_def
          split: option.splits if_splits lookup.splits)
next
  show "accepted (snd (submit driver u sid ic now d)) \<longrightarrow>
      (\<exists>v k s s'. sid = Some v \<and> findById driver v (sessions d) = Found k \<and>
         sessions d k = Some s \<and>
         sessions (fst (submit driver u sid ic now d)) k = Some s' \<and>
         score s' = score s + (if js_truthy ic then 10 else 0) \<and>
         submissions (fst (submit driver u sid ic now d)) = submissions d @
           [\<lparr> gameId = questions s ! currentQuestionIndex s, sub_studentId = u,
              isCorrect = js_truthy ic, submittedAt = now \<rparr>])"
  proof
    assume "accepted (snd (submit driver u sid ic now d))"
    then obtain v k s where a: "sid = Some v" "truthy v" "ic \<noteq> None"
      "findById driver v (sessions d) = Found k"
      "sessions d k = Some s" "studentId s = u" "status s = InProgress"
      "currentQuestionIndex s < length (questions s)"
      unfolding submit_accepted_iff by blast
    have "sessions (fst (submit driver u sid ic now d)) k = Some (applyAnswer ic now s)"
      using submit_accepted_sessions [OF a] by simp
    moreover have "score (applyAnswer ic now s) = score s + (if js_truthy ic then 10 else 0)"
      by (simp add: applyAnswer_def Let_def)
    ultimately show "\<exists>v k s s'. sid = Some v \<and> findById driver v (sessions d) = Found k \<and>
         sessions d k = Some s \<and>
         sessions (fst (submit driver u sid ic now d)) k = Some s' \<and>
         score s' = score s + (if js_truthy ic then 10 else 0) \<and>
         submissions (fst (submit driver u sid ic now d)) = submissions d @
           [\<lparr> gameId = questions s ! currentQuestionIndex s, sub_studentId = u,
              isCorrect = js_truthy ic, submittedAt = now \<rparr>]"
      using a(1,4,5) submit_accepted_submissions [OF a] by blast
  qed
qed simp_all

theorem submit_validation_and_scoring_witness:
  "accepted (snd (submit exDriver exUser (Some (JArr [JStr exSid])) (Some (JStr ''false'')) 2000 exDb1)) \<and>
   (\<exists>v k s s'. Some (JArr [JStr exSid]) = Some v \<and>
      findById exDriver v (sessions exDb1) = Found k \<and> sessions exDb1 k = Some s \<and>
      sessions (fst (submit exDriver exUser (Some (JArr [JStr exSid])) (Some (JStr ''false'')) 2000 exDb1)) k
        = Some s' \<and>
      score s' = score s + 10)"
proof -
  note a = exArray_accepts [of "JStr ''false''"]
  from submit_validation_and_scoring
         [of exDriver exUser "Some (JArr [JStr exSid])" "Some (JStr ''false'')" 2000 exDb1] a
  show ?thesis by auto
qed

text \<open>
  The claim as written has 400 only for a missing property; a \<open>sessionId\<close> that is
  present but empty is answered 400 as well.
\<close>

theorem present_empty_sessionId_is_400:
  "Some (JStr []) \<noteq> None \<and> Some (JBool True) \<noteq> None \<and>
   snd (submit exDriver exUser (Some (JStr [])) (Some (JBool True)) 2000 exDb1)
     = Error 400 ''sessionId and isCorrect are required''"
  by (simp add: submit_def badRequest_def)

lemma cast_truthy: "castObjectId v = Some k \<Longrightarrow> truthy v"
  by (cases v) (auto simp: castObjectId_def split: if_splits)

lemma points_Cons: "points ((ic, now) # rest) = (if js_truthy ic then 10 else 0) + points rest"
  by (simp add: points_def)

lemma submitAll_Cons:
  "submitAll driver u sid ((ic, now) # rest) d =
     (fst (submitAll driver u sid rest (fst (submit driver u sid ic now d))),
      snd (submit driver u sid ic now d) # snd (submitAll driver u sid rest (fst (submit driver u sid ic now d))))"
  by (simp add: case_prod_beta Let_def)

lemma applyAnswer_last:
  "Suc (currentQuestionIndex s) = length (questions s) \<Longrightarrow>
   applyAnswer ic now s = s\<lparr> score := score s + (if js_truthy ic then 10 else 0),
       currentQuestionIndex := length (questions s), status := Completed, endTime := Some now \<rparr>"
  by (simp add: applyAnswer_def Let_def)

lemma applyAnswer_inner:
  "Suc (currentQuestionIndex s) < length (questions s) \<Longrightarrow>
   applyAnswer ic now s = s\<lparr> score := score s + (if js_truthy ic then 10 else 0),
       currentQuestionIndex := Suc (currentQuestionIndex s) \<rparr>"
  by (simp add: applyAnswer_def Let_def)

lemma submitAll_run:
  assumes "Option.bind sid castObjectId = Some k"
  shows "sessions d k = Some s \<Longrightarrow> studentId s = u \<Longrightarrow> status s = InProgress \<Longrightarrow>
    answers \<noteq> [] \<Longrightarrow> \<forall>a \<in> set answers. fst a \<noteq> None \<Longrightarrow>
    currentQuestionIndex s + length answers = length (questions s) \<Longrightarrow>
    last (snd (submitAll driver u sid answers d))
        = Finished (score s + points answers) (snd (last answers) - startTime s) \<and>
    (\<forall>r \<in> set (butlast (snd (submitAll driver u sid answers d))). \<exists>q. r = NextQuestion q) \<and>
    leaderboard (fst (submitAll driver u sid answers d))
        = leaderboard d @ [\<lparr> lb_studentId = u, lb_score = score s + points answers,
                             timeTakenMs = snd (last answers) - startTime s,
                             date = snd (last answers) \<rparr>] \<and>
    sessions (fst (submitAll driver u sid answers d)) k
        = Some (s\<lparr> score := score s + points answers,
                   currentQuestionIndex := length (questions s),
                   status := Completed, endTime := Some (snd (last answers)) \<rparr>)"
proof (induction answers arbitrary: d s)
  case Nil
  then show ?case by simp
next
  case (Cons a rest)
  obtain ic now where a: "a = (ic, now)" by (cases a)
  from assms obtain v where v: "sid = Some v" "castObjectId v = Some k"
    by (cases sid) auto
  have t: "truthy v" using v(2) by (rule cast_truthy)
  have f: "findById driver v (sessions d) = Found k"
    using v(2) Cons.prems(1) by (simp add: findById_cast)
  have ic: "ic \<noteq> None" using Cons.prems(5) a by simp
  have lt: "currentQuestionIndex s < length (questions s)" using Cons.prems(6) by simp
  note acc = v(1) t ic f Cons.prems(1,2,3) lt
  let ?d1 = "fst (submit driver u sid ic now d)"
  show ?case
  proof (cases "rest = []")
    case True
    then have e: "Suc (currentQuestionIndex s) = length (questions s)"
      using Cons.prems(6) by simp
    show ?thesis
      using True e a submit_accepted_response [OF acc, of now]
        submit_accepted_leaderboard [OF acc, of now] submit_accepted_sessions [OF acc, of now]
      by (simp add: submitAll_Cons points_Cons applyAnswer_last points_def del: submitAll.simps(2))
  next
    case False
    then have e: "Suc (currentQuestionIndex s) < length (questions s)"
      using Cons.prems(6) by (cases rest) simp_all
    let ?s1 = "s\<lparr> score := score s + (if js_truthy ic then 10 else 0),
       currentQuestionIndex := Suc (currentQuestionIndex s) \<rparr>"
    have s1: "sessions ?d1 k = Some ?s1"
      using submit_accepted_sessions [OF acc, of now] e by (simp add: applyAnswer_inner)
    have lb: "leaderboard ?d1 = leaderboard d"
      using submit_accepted_leaderboard [OF acc, of now] e by simp
    have r: "snd (submit driver u sid ic now d) = NextQuestion (map_option selectView
                   (findGameById d (questions s ! Suc (currentQuestionIndex s))))"
      using submit_accepted_response [OF acc, of now] e by simp
    have ih: "last (snd (submitAll driver u sid rest ?d1))
        = Finished (score ?s1 + points rest) (snd (last rest) - startTime ?s1) \<and>
      (\<forall>r \<in> set (butlast (snd (submitAll driver u sid rest ?d1))). \<exists>q. r = NextQuestion q) \<and>
      leaderboard (fst (submitAll driver u sid rest ?d1))
        = leaderboard ?d1 @ [\<lparr> lb_studentId = u, lb_score = score ?s1 + points rest,
                             timeTakenMs = snd (last rest) - startTime ?s1,
                             date = snd (last rest) \<rparr>] \<and>
      sessions (fst (submitAll driver u sid rest ?d1)) k
        = Some (?s1\<lparr> score := score ?s1 + points rest,
                   currentQuestionIndex := length (questions ?s1),
                   status := Completed, endTime := Some (snd (last rest)) \<rparr>)"
    proof (rule Cons.IH [OF s1])
      show "studentId ?s1 = u" using Cons.prems(2) by simp
      show "status ?s1 = InProgress" using Cons.prems(3) by simp
      show "rest \<noteq> []" by (rule False)
      show "\<forall>a\<in>set rest. fst a \<noteq> None" using Cons.prems(5) by simp
      show "currentQuestionIndex ?s1 + length rest = length (questions ?s1)"
        using Cons.prems(6) by simp
    qed
    have ne: "snd (submitAll driver u sid rest ?d1) \<noteq> []"
      using False by (cases rest) (auto simp: case_prod_beta Let_def)
    show ?thesis
      using ih False ne r lb a
      by (simp add: submitAll_Cons points_Cons add.assoc del: submitAll.simps(2))
  qed
qed

text \<open>
  Claim C3. A student answers an in-progress session to its end: as many submissions as
  questions remain. The last response is the completed one and carries the accumulated
  score, 10 for each truthy answer, and the time from \<open>startTime\<close> to the clock of the last
  submission; every earlier response is the next question; exactly one leaderboard entry
  is appended, with that score and that time; and the session is stored completed with
  \<open>endTime\<close> that clock. With one remaining question this is the single completing
  submission; with three questions, all answered correctly, the final score is 30.
\<close>

theorem completion_writes_one_leaderboard_entry:
  assumes "Option.bind sid castObjectId = Some k"
    and "sessions d k = Some s" and "studentId s = u" and "status s = InProgress"
    and "answers \<noteq> []" and "\<forall>a \<in> set answers. fst a \<noteq> None"
    and "currentQuestionIndex s + length answers = length (questions s)"
  shows "last (snd (submitAll driver u sid answers d))
        = Finished (score s + points answers) (snd (last answers) - startTime s) \<and>
    (\<forall>r \<in> set (butlast (snd (submitAll driver u sid answers d))). \<exists>q. r = NextQuestion q) \<and>
    leaderboard (fst (submitAll driver u sid answers d))
        = leaderboard d @ [\<lparr> lb_studentId = u, lb_score = score s + points answers,
                             timeTakenMs = snd (last answers) - startTime s,
                             date = snd (last answers) \<rparr>] \<and>
    sessions (fst (submitAll driver u sid answers d)) k
        = Some (s\<lparr> score := score s + points answers,
                   currentQuestionIndex := length (questions s),
                   status := Completed, endTime := Some (snd (last answers)) \<rparr>)"
  using assms by (rule submitAll_run)

theorem three_correct_answers_score_30:
  "last (snd (submitAll exDriver exUser (Some (JStr exSid)) exAnswers exDb1)) = Finished 30 3000 \<and>
   leaderboard (fst (submitAll exDriver exUser (Some (JStr exSid)) exAnswers exDb1))
     = [\<lparr> lb_studentId = exUser, lb_score = 30, timeTakenMs = 3000, date = 4000 \<rparr>] \<and>
   length (filter (\<lambda>e. lb_studentId e = exUser)
     (leaderboard (fst (submitAll exDriver exUser (Some (JStr exSid)) exAnswers exDb1)))) = 1 \<and>
   map_option status (sessions (fst (submitAll exDriver exUser (Some (JStr exSid)) exAnswers exDb1)) exSid)
     = Some Completed"
proof -
  let ?s = "newSession exUser exQuestions 1000"
  have 1: "sessions exDb1 exSid = Some ?s" by (simp add: exDb1_sessions)
  have 2: "studentId ?s = exUser" "status ?s = InProgress" by (simp_all add: newSession_def)
  have 3: "exAnswers \<noteq> []" "\<forall>a \<in> set exAnswers. fst a \<noteq> None"
    by (simp_all add: exAnswers_def)
  have 4: "currentQuestionIndex ?s + length exAnswers = length (questions ?s)"
    by (simp add: newSession_def exAnswers_def exQuestions_def)
  have 5: "leaderboard exDb1 = []"
    by (simp add: exDb1_def start_def Let_def exDb0_sample) (simp add: exQuestions_def exDb0_def)
  have 6: "score ?s + points exAnswers = 30" "startTime ?s = 1000"
    "snd (last exAnswers) = 4000"
    by (simp_all add: newSession_def points_def exAnswers_def)
  from completion_writes_one_leaderboard_entry [OF exSid_bind 1 2 3 4]
  show ?thesis unfolding 5 6 by simp
qed






lemma outranks_key: "outranks a b = (rankKey a < rankKey b)"
  by (auto simp: outranks_def rankKey_def)

lemma key_le: "(rankKey a \<le> rankKey b) = (outranks a b \<or> tied a b)"
  by (auto simp: outranks_def tied_def rankKey_def)

lemma topTen_sorted: "sorted (map rankKey (topTen d))"
proof -
  have "sorted (take 10 (map rankKey (sort_key rankKey (leaderboard d))))"
    by (rule sorted_wrt_take) simp
  then show ?thesis by (simp add: topTen_def leaderboardTimeAttack_def take_map)
qed

lemma topTen_split:
  "mset (topTen d) + mset (drop 10 (sort_key rankKey (leaderboard d))) = mset (leaderboard d)"
proof -
  let ?s = "sort_key rankKey (leaderboard d)"
  have "mset (take 10 ?s) + mset (drop 10 ?s) = mset ?s"
    by (simp add: union_code)
  then show ?thesis by (simp add: topTen_def leaderboardTimeAttack_def)
qed

lemma topTen_best:
  assumes "a \<in> set (topTen d)" and "b \<in> set (drop 10 (sort_key rankKey (leaderboard d)))"
  shows "\<not> outranks b a"
proof -
  let ?s = "sort_key rankKey (leaderboard d)"
  have "sorted (map rankKey (take 10 ?s @ drop 10 ?s))" by simp
  then have "\<forall>x\<in>set (map rankKey (take 10 ?s)). \<forall>y\<in>set (map rankKey (drop 10 ?s)). x \<le> y"
    unfolding map_append sorted_append by blast
  moreover have "rankKey a \<in> set (map rankKey (take 10 ?s))"
    using assms(1) by (simp add: topTen_def leaderboardTimeAttack_def)
  moreover have "rankKey b \<in> set (map rankKey (drop 10 ?s))"
    using assms(2) by simp
  ultimately have "rankKey a \<le> rankKey b" by blast
  then show ?thesis by (simp add: outranks_key)
qed

text \<open>
  Claim C5, amended. The endpoint returns the 10 best entries of the leaderboard, or all
  when there are fewer: the returned entries and the entries left out together are the
  stored entries, each as often as it is stored, and no entry left out outranks a
  returned one. Among the returned entries, one that outranks another (higher score, or
  equal score and lower time) is placed above it; and one placed above another outranks
  it or is tied with it in both score and time.
\<close>

theorem leaderboard_top_ten_order:
  "\<exists>es rest.
     leaderboardTimeAttack d = Board es \<and>
     length es = min 10 (length (leaderboard d)) \<and>
     mset es + mset rest = mset (leaderboard d) \<and>
     (\<forall>a\<in>set es. \<forall>b\<in>set rest. \<not> outranks b a) \<and>
     (\<forall>i j. i < length es \<and> j < length es \<longrightarrow>
        (outranks (es ! i) (es ! j) \<longrightarrow> i < j) \<and>
        (i < j \<longrightarrow> outranks (es ! i) (es ! j) \<or> tied (es ! i) (es ! j)))"
proof (intro exI conjI allI impI ballI)
  show "leaderboardTimeAttack d = Board (topTen d)"
    by (simp add: topTen_def leaderboardTimeAttack_def)
  show "length (topTen d) = min 10 (length (leaderboard d))"
    by (simp add: topTen_def leaderboardTimeAttack_def)
  show "mset (topTen d) + mset (drop 10 (sort_key rankKey (leaderboard d))) = mset (leaderboard d)"
    by (rule topTen_split)
next
  fix a b
  assume "a \<in> set (topTen d)" and "b \<in> set (drop 10 (sort_key rankKey (leaderboard d)))"
  then show "\<not> outranks b a" by (rule topTen_best)
next
  fix i j
  assume b: "i < length (topTen d) \<and> j < length (topTen d)"
  assume o: "outranks (topTen d ! i) (topTen d ! j)"
  show "i < j"
  proof (rule ccontr)
    assume "\<not> i < j"
    then have "j \<le> i" by simp
    with b topTen_sorted [of d] have "map rankKey (topTen d) ! j \<le> map rankKey (topTen d) ! i"
      by (intro sorted_nth_mono) simp_all
    with b o show False by (simp add: outranks_key)
  qed
next
  fix i j
  assume b: "i < length (topTen d) \<and> j < length (topTen d)" and "i < j"
  with topTen_sorted [of d] have "map rankKey (topTen d) ! i \<le> map rankKey (topTen d) ! j"
    by (intro sorted_nth_mono) simp_all
  with b show "outranks (topTen d ! i) (topTen d ! j) \<or> tied (topTen d ! i) (topTen d ! j)"
    by (simp add: key_le)
qed

lemma exBoard_topTen:
  "topTen exBoard = [\<lparr> lb_studentId = exOther, lb_score = 40, timeTakenMs = 8000, date = 9500 \<rparr>,
                     \<lparr> lb_studentId = exUser, lb_score = 30, timeTakenMs = 3000, date = 4000 \<rparr>,
                     \<lparr> lb_studentId = exOther, lb_score = 30, timeTakenMs = 3000, date = 9000 \<rparr>]"
  by (simp add: topTen_def leaderboardTimeAttack_def exBoard_def rankKey_def)

theorem leaderboard_top_ten_order_witness:
  "\<exists>es rest.
     leaderboardTimeAttack exBoard = Board es \<and> length es = 3 \<and>
     mset es + mset rest = mset (leaderboard exBoard) \<and>
     (\<forall>a\<in>set es. \<forall>b\<in>set rest. \<not> outranks b a) \<and>
     (\<forall>i j. i < length es \<and> j < length es \<longrightarrow>
        (outranks (es ! i) (es ! j) \<longrightarrow> i < j) \<and>
        (i < j \<longrightarrow> outranks (es ! i) (es ! j) \<or> tied (es ! i) (es ! j))) \<and>
     0 < length es \<and> 1 < length es \<and> outranks (es ! 0) (es ! 1)"
proof -
  from leaderboard_top_ten_order [of exBoard] obtain es rest where e:
    "leaderboardTimeAttack exBoard = Board es"
    "length es = min 10 (length (leaderboard exBoard))"
    "mset es + mset rest = mset (leaderboard exBoard)"
    "\<forall>a\<in>set es. \<forall>b\<in>set rest. \<not> outranks b a"
    "\<forall>i j. i < length es \<and> j < length es \<longrightarrow>
        (outranks (es ! i) (es ! j) \<longrightarrow> i < j) \<and>
        (i < j \<longrightarrow> outranks (es ! i) (es ! j) \<or> tied (es ! i) (es ! j))"
    by blast
  from e(1) have t: "es = topTen exBoard" by (simp add: topTen_def)
  have "length es = 3" "0 < length es" "1 < length es" "outranks (es ! 0) (es ! 1)"
    by (simp_all add: t exBoard_topTen outranks_def)
  with e show ?thesis by blast
qed

text \<open>
  The claim as written has an entry above another only if it outranks it; of two tied
  entries one is above the other all the same.
\<close>

theorem tied_entries_are_ranked:
  "leaderboardTimeAttack exBoard = Board (topTen exBoard) \<and>
   1 < length (topTen exBoard) \<and> 2 < length (topTen exBoard) \<and> (1::nat) < 2 \<and>
   \<not> outranks (topTen exBoard ! 1) (topTen exBoard ! 2)"
proof -
  have "leaderboardTimeAttack exBoard = Board (topTen exBoard)"
    by (simp add: topTen_def leaderboardTimeAttack_def)
  then show ?thesis by (simp add: exBoard_topTen outranks_def)
qed

section \<open>Properties of double arithmetic\<close>

text \<open>
  What the proofs below use of \<open>toDouble\<close>: the exponent is the one of the binary
  expansion, a number with a significand of at most 53 bits is a double as it is, rounding
  is idempotent, an integer rounds to an integer, and in the normal range the relative
  error of one rounding is at most \<open>2 ^ -53\<close>.
\<close>

lemma expo_bounds:
  assumes "0 < x"
  shows "2 powi expo x \<le> x" and "x < 2 powi (expo x + 1)"
proof -
  have "2 powi expo x \<le> x \<and> x < 2 powi (expo x + 1)"
  proof (cases "1 \<le> x")
    case True
    define n where "n = \<lfloor>x\<rfloor>"
    have n: "1 \<le> n" "of_int n \<le> x" "x < of_int n + 1"
      using True floor_correct [of x] by (simp_all add: n_def)
    then have n0: "0 < n" by simp
    define b where "b = bitlen n"
    have b1: "1 \<le> b" using n0 by (simp add: b_def bitlen_alt_def)
    from bitlen_bounds [OF n0] have bb: "2 ^ nat (b - 1) \<le> n" "n < 2 ^ nat b"
      by (simp_all add: b_def)
    have e: "expo x = b - 1" using True by (simp add: expo_def n_def b_def)
    have "(2::rat) powi (b - 1) = 2 ^ nat (b - 1)"
      using b1 by (simp add: power_int_nonneg_exp)
    also have "\<dots> = of_int (2 ^ nat (b - 1))" by simp
    also have "\<dots> \<le> of_int n" using bb(1) by (simp only: of_int_le_iff)
    finally have l: "2 powi (b - 1) \<le> x" using n(2) by simp
    have "n + 1 \<le> 2 ^ nat b" using bb(2) by simp
    then have "(of_int (n + 1) :: rat) \<le> of_int (2 ^ nat b)" by (simp only: of_int_le_iff)
    then have "of_int n + 1 \<le> (2::rat) ^ nat b" by simp
    also have "\<dots> = 2 powi b" using b1 by (simp add: power_int_nonneg_exp)
    finally have u: "x < 2 powi b" using n(3) by simp
    show ?thesis using l u e by simp
  next
    case False
    define y where "y = 1 / x"
    have y1: "1 < y" using False assms by (simp add: y_def)
    define m where "m = \<lceil>y\<rceil>"
    have m: "of_int m - 1 < y" "y \<le> of_int m"
      using ceiling_correct [of y] by (simp_all add: m_def)
    have m2: "2 \<le> m" using y1 m(2) by linarith
    define k where "k = bitlen (m - 1)"
    have m0: "0 < m - 1" using m2 by simp
    have k1: "1 \<le> k" using m0 by (simp add: k_def bitlen_alt_def)
    from bitlen_bounds [OF m0] have bb: "2 ^ nat (k - 1) \<le> m - 1" "m - 1 < 2 ^ nat k"
      by (simp_all add: k_def)
    have e: "expo x = - k" using False by (simp add: expo_def y_def m_def k_def)
    have "(2::rat) ^ nat (k - 1) = of_int (2 ^ nat (k - 1))" by simp
    also have "\<dots> \<le> of_int (m - 1)" using bb(1) by (simp only: of_int_le_iff)
    also have "\<dots> < y" using m(1) by simp
    finally have lo: "(2::rat) ^ nat (k - 1) < y" .
    have "m \<le> 2 ^ nat k" using bb(2) by simp
    then have "(of_int m :: rat) \<le> of_int (2 ^ nat k)" by (simp only: of_int_le_iff)
    also have "\<dots> = 2 ^ nat k" by simp
    finally have hi: "y \<le> (2::rat) ^ nat k" using m(2) by (rule order_trans [rotated])
    have x: "x = 1 / y" using assms by (simp add: y_def)
    have p1: "(2::rat) powi (- k) = 1 / 2 ^ nat k"
      using k1 by (simp add: power_int_def field_simps)
    have p2: "(2::rat) powi (- k + 1) = 1 / 2 ^ nat (k - 1)"
      using k1 by (auto simp add: power_int_def field_simps nat_diff_distrib)
    have "1 / (2::rat) ^ nat k \<le> 1 / y"
      using hi y1 by (intro divide_left_mono) simp_all
    then have l: "2 powi (- k) \<le> x" by (simp only: p1 x)
    have "1 / y < 1 / (2::rat) ^ nat (k - 1)"
      using lo y1 by (intro divide_strict_left_mono) (simp_all add: zero_less_mult_iff)
    then have u: "x < 2 powi (- k + 1)" by (simp only: p2 x)
    show ?thesis using l u by (simp only: e)
  qed
  then show "2 powi expo x \<le> x" and "x < 2 powi (expo x + 1)" by simp_all
qed

lemma expo_unique:
  assumes "2 powi e \<le> x" and "x < 2 powi (e + 1)"
  shows "expo x = e"
proof -
  have x0: "0 < x" using assms(1) by (rule less_le_trans [rotated]) simp
  note b = expo_bounds [OF x0]
  have "\<not> expo x < e"
  proof
    assume "expo x < e"
    then have "expo x + 1 \<le> e" by simp
    then have "(2::rat) powi (expo x + 1) \<le> 2 powi e" by (intro power_int_increasing) simp_all
    with b(2) assms(1) show False by simp
  qed
  moreover have "\<not> e < expo x"
  proof
    assume "e < expo x"
    then have "e + 1 \<le> expo x" by simp
    then have "(2::rat) powi (e + 1) \<le> 2 powi expo x" by (intro power_int_increasing) simp_all
    with b(1) assms(2) show False by simp
  qed
  ultimately show ?thesis by simp
qed


lemma roundHalfEven_int [simp]: "roundHalfEven (of_int m) = m"
  by (simp add: roundHalfEven_def)

lemma roundHalfEven_err: "\<bar>of_int (roundHalfEven y) - y\<bar> \<le> 1 / 2"
proof -
  define f where "f = \<lfloor>y\<rfloor>"
  have "of_int f \<le> y" "y < of_int f + 1" using floor_correct [of y] by (simp_all add: f_def)
  then show ?thesis
    unfolding roundHalfEven_def Let_def f_def [symmetric] by (auto simp: abs_if)
qed

lemma roundHalfEven_le: "y \<le> of_int n \<Longrightarrow> roundHalfEven y \<le> n"
proof -
  assume a: "y \<le> of_int n"
  have f: "of_int \<lfloor>y\<rfloor> \<le> y" "y < of_int \<lfloor>y\<rfloor> + 1" using floor_correct [of y] by simp_all
  have "\<lfloor>y\<rfloor> \<le> n" using a by (simp add: floor_le_iff)
  show ?thesis
  proof (cases "\<lfloor>y\<rfloor> = n")
    case True
    with a f have "y = of_int n" by simp
    then show ?thesis by simp
  next
    case False
    with \<open>\<lfloor>y\<rfloor> \<le> n\<close> have "\<lfloor>y\<rfloor> + 1 \<le> n" by simp
    then show ?thesis by (auto simp: roundHalfEven_def Let_def)
  qed
qed

lemma roundHalfEven_nonneg: "0 \<le> y \<Longrightarrow> 0 \<le> roundHalfEven y"
  by (auto simp: roundHalfEven_def Let_def)

lemma toDouble_zero [simp]: "toDouble 0 = Finite 0"
  by (simp add: toDouble_def)

lemma toDouble_pos:
  assumes "0 < x"
  shows "toDouble x =
     (let q = 2 powi (max (expo x) (- 1022) - 52);
          y = of_int (roundHalfEven (x / q)) * q
      in if overflow \<le> y then PosInf else Finite y)"
  using assms by (simp add: toDouble_def Let_def)

lemma toDouble_neg: "toDouble (- x) = jsNegate (toDouble x)"
  by (cases "x = 0"; cases "0 < x") (simp_all add: toDouble_def Let_def)

lemma toDouble_exact:
  assumes "0 < m" and "m < 2 ^ 53" and "- 1074 \<le> k"
    and "of_int m * 2 powi k < overflow"
  shows "toDouble (of_int m * 2 powi k) = Finite (of_int m * 2 powi k)"
proof -
  define x :: rat where "x = of_int m * 2 powi k"
  have x0: "0 < x" using assms(1) by (simp add: x_def)
  have "(of_int m :: rat) < of_int (2 ^ 53)" using assms(2) by (simp only: of_int_less_iff)
  then have "x < 2 ^ 53 * 2 powi k" by (simp add: x_def)
  also have "\<dots> = 2 powi (k + 53)" by (simp add: power_int_add)
  finally have xu: "x < 2 powi (k + 53)" .
  have "expo x < k + 53"
  proof (rule ccontr)
    assume "\<not> expo x < k + 53"
    then have "(2::rat) powi (k + 53) \<le> 2 powi expo x" by (intro power_int_increasing) simp_all
    with expo_bounds(1) [OF x0] xu show False by simp
  qed
  define e where "e = max (expo x) (- 1022)"
  have e: "e \<le> k + 52" using \<open>expo x < k + 53\<close> assms(3) by (simp add: e_def)
  define j where "j = nat (k - e + 52)"
  have j: "k = (e - 52) + int j" using e by (simp add: j_def)
  have "x / 2 powi (e - 52) = of_int m * (2 powi k / 2 powi (e - 52))" by (simp add: x_def)
  also have "2 powi k / (2::rat) powi (e - 52) = 2 ^ j"
    by (simp add: j power_int_add)
  also have "of_int m * (2::rat) ^ j = of_int (m * 2 ^ j)" by simp
  finally have d: "x / 2 powi (e - 52) = of_int (m * 2 ^ j)" .
  have y: "of_int (roundHalfEven (x / 2 powi (e - 52))) * (2::rat) powi (e - 52) = x"
    unfolding d roundHalfEven_int by (simp add: x_def j power_int_add)
  have "\<not> overflow \<le> x" using assms(4) by (simp add: x_def)
  then show ?thesis
    unfolding x_def [symmetric] toDouble_pos [OF x0] Let_def e_def [symmetric] y by simp
qed

lemma toDouble_of_int_small:
  assumes "\<bar>i\<bar> < 2 ^ 53"
  shows "toDouble (of_int i) = Finite (of_int i)"
proof -
  have pos: "toDouble (of_int m) = Finite (of_int m)" if "0 < m" "m < 2 ^ 53" for m :: int
  proof -
    have "(of_int m :: rat) < of_int (2 ^ 53)" using that(2) by (simp only: of_int_less_iff)
    also have "\<dots> < overflow" by (simp add: overflow_def)
    finally have "of_int m * 2 powi 0 < overflow" by simp
    from toDouble_exact [OF that, of 0, OF _ this] show ?thesis by simp
  qed
  consider "i = 0" | "0 < i" | "i < 0" by linarith
  then show ?thesis
  proof cases
    case 1
    then show ?thesis by simp
  next
    case 2
    with assms show ?thesis by (intro pos) simp_all
  next
    case 3
    then have "0 < - i" "- i < 2 ^ 53" using assms by simp_all
    from pos [OF this] show ?thesis using toDouble_neg [of "of_int (- i)"] by simp
  qed
qed


lemma toDouble_shape:
  assumes "0 < x"
  shows "toDouble x = PosInf \<or>
         (\<exists>m. 0 \<le> m \<and> m \<le> 2 ^ 53 \<and>
              toDouble x = Finite (of_int m * 2 powi (max (expo x) (- 1022) - 52)) \<and>
              of_int m * 2 powi (max (expo x) (- 1022) - 52) < overflow)"
proof -
  define e where "e = max (expo x) (- 1022)"
  define q :: rat where "q = 2 powi (e - 52)"
  define m where "m = roundHalfEven (x / q)"
  have q0: "0 < q" by (simp add: q_def)
  have "x < 2 powi (expo x + 1)" using assms by (rule expo_bounds)
  also have "\<dots> \<le> 2 powi (e + 1)" by (intro power_int_increasing) (simp_all add: e_def)
  also have "\<dots> = 2 ^ 53 * q" by (simp add: q_def power_int_diff power_int_add)
  finally have "x / q < 2 ^ 53" using q0 by (simp add: divide_less_eq)
  then have "x / q \<le> of_int (2 ^ 53)" by simp
  then have m53: "m \<le> 2 ^ 53" unfolding m_def by (rule roundHalfEven_le)
  have m0: "0 \<le> m" unfolding m_def using assms q0 by (intro roundHalfEven_nonneg) simp
  have t: "toDouble x = (if overflow \<le> of_int m * q then PosInf else Finite (of_int m * q))"
    by (simp add: toDouble_pos [OF assms] Let_def e_def q_def m_def)
  show ?thesis
  proof (cases "overflow \<le> of_int m * q")
    case True
    with t show ?thesis by simp
  next
    case False
    with t m0 m53 show ?thesis unfolding q_def e_def by auto
  qed
qed

lemma toDouble_idem_pos:
  assumes "0 < x" and "toDouble x = Finite y"
  shows "toDouble y = Finite y"
proof -
  define k where "k = max (expo x) (- 1022) - 52"
  from toDouble_shape [OF assms(1)] assms(2) obtain m where m: "0 \<le> m" "m \<le> 2 ^ 53"
    "y = of_int m * 2 powi k" "of_int m * 2 powi k < overflow"
    unfolding k_def by auto
  have k: "- 1074 \<le> k" by (simp add: k_def)
  consider "m = 0" | "0 < m" "m < 2 ^ 53" | "m = 2 ^ 53" using m(1,2) by linarith
  then show ?thesis
  proof cases
    case 1
    then show ?thesis by (simp add: m(3))
  next
    case 2
    from toDouble_exact [OF 2 k m(4)] show ?thesis by (simp add: m(3))
  next
    case 3
    have y: "y = of_int (2 ^ 52) * 2 powi (k + 1)"
      by (simp add: m(3) 3 power_int_add)
    have "of_int (2 ^ 52) * 2 powi (k + 1) < overflow" using m(4) y m(3) by simp
    from toDouble_exact [OF _ _ _ this] k show ?thesis unfolding y by simp
  qed
qed

lemma toDouble_idem: "toDouble x = Finite y \<Longrightarrow> toDouble y = Finite y"
proof -
  assume a: "toDouble x = Finite y"
  consider "x = 0" | "0 < x" | "x < 0" by linarith
  then show ?thesis
  proof cases
    case 1
    with a show ?thesis by simp
  next
    case 2
    then show ?thesis using a by (rule toDouble_idem_pos)
  next
    case 3
    then have p: "0 < - x" by simp
    have "toDouble (- x) = Finite (- y)" using a by (simp add: toDouble_neg)
    with p have "toDouble (- y) = Finite (- y)" by (rule toDouble_idem_pos)
    then have "jsNegate (toDouble y) = Finite (- y)" by (simp add: toDouble_neg)
    then show ?thesis by (cases "toDouble y") simp_all
  qed
qed

lemma expo_ge:
  assumes "2 powi n \<le> x"
  shows "n \<le> expo x"
proof (rule ccontr)
  assume "\<not> n \<le> expo x"
  then have "expo x + 1 \<le> n" by simp
  then have "(2::rat) powi (expo x + 1) \<le> 2 powi n" by (intro power_int_increasing) simp_all
  moreover have "0 < x" using assms by (rule less_le_trans [rotated]) simp
  ultimately show False using expo_bounds(2) [of x] assms by simp
qed

lemma toDouble_of_int_integral:
  assumes "toDouble (of_int i) = Finite y"
  shows "\<exists>z. y = of_int z"
proof -
  have pos: "\<exists>z. y = of_int z" if "0 < i" "toDouble (of_int i) = Finite y" for i :: int and y
  proof -
    define x :: rat where "x = of_int i"
    have x1: "1 \<le> x" using that(1) by (simp add: x_def)
    then have x0: "0 < x" by simp
    have "2 powi 0 \<le> x" using x1 by simp
    then have e0: "0 \<le> expo x" by (rule expo_ge)
    show ?thesis
    proof (cases "52 \<le> expo x")
      case True
      define k where "k = max (expo x) (- 1022) - 52"
      have k0: "0 \<le> k" using True by (simp add: k_def)
      from toDouble_shape [OF x0] that(2) obtain m where "y = of_int m * 2 powi k"
        unfolding x_def [symmetric] k_def by auto
      then have "y = of_int (m * 2 ^ nat k)" using k0 by (simp add: power_int_nonneg_exp)
      then show ?thesis ..
    next
      case False
      then have "expo x + 1 \<le> 52" by simp
      then have "(2::rat) powi (expo x + 1) \<le> 2 powi 52" by (intro power_int_increasing) simp_all
      with expo_bounds(2) [OF x0] have "x < 2 ^ 52" by simp
      then have "(of_int i :: rat) < of_int (2 ^ 52)" by (simp add: x_def)
      then have "i < 2 ^ 52" by (simp only: of_int_less_iff)
      with that(1) have "\<bar>i\<bar> < 2 ^ 53" by simp
      from toDouble_of_int_small [OF this] that(2) show ?thesis by auto
    qed
  qed
  consider "i = 0" | "0 < i" | "i < 0" by linarith
  then show ?thesis
  proof cases
    case 1
    with assms have "y = of_int 0" by simp
    then show ?thesis ..
  next
    case 2
    then show ?thesis using assms by (rule pos)
  next
    case 3
    then have p: "0 < - i" by simp
    have "toDouble (of_int (- i)) = Finite (- y)"
      using assms toDouble_neg [of "of_int i"] by simp
    from pos [OF p this] obtain z where "- y = of_int z" ..
    then have "y = of_int (- z)" by simp
    then show ?thesis ..
  qed
qed

lemma toDouble_normal:
  assumes "2 powi (- 1022) \<le> x" and "x \<le> 2 ^ 1000"
  shows "\<exists>y. toDouble x = Finite y \<and> \<bar>y - x\<bar> \<le> x / 2 ^ 53"
proof -
  have x0: "0 < x" using assms(1) by (rule less_le_trans [rotated]) simp
  have e: "- 1022 \<le> expo x" using assms(1) by (rule expo_ge)
  define q :: rat where "q = 2 powi (expo x - 52)"
  define m where "m = roundHalfEven (x / q)"
  have q0: "0 < q" by (simp add: q_def)
  have "q * 2 ^ 52 = 2 powi expo x" by (simp add: q_def power_int_diff)
  also have "\<dots> \<le> x" using x0 by (rule expo_bounds)
  finally have qx: "q \<le> x / 2 ^ 52" by (simp add: le_divide_eq)
  have "\<bar>of_int m - x / q\<bar> \<le> 1 / 2" unfolding m_def by (rule roundHalfEven_err)
  then have "\<bar>of_int m - x / q\<bar> * q \<le> 1 / 2 * q" using q0 by (intro mult_right_mono) simp_all
  moreover have "(of_int m - x / q) * q = of_int m * q - x"
    using q0 by (simp add: left_diff_distrib)
  then have "\<bar>of_int m - x / q\<bar> * q = \<bar>of_int m * q - x\<bar>"
    using q0 abs_mult [of "of_int m - x / q" q] by simp
  ultimately have err: "\<bar>of_int m * q - x\<bar> \<le> q / 2" by simp
  also have "\<dots> \<le> x / 2 ^ 53" using qx by simp
  finally have rel: "\<bar>of_int m * q - x\<bar> \<le> x / 2 ^ 53" .
  have "of_int m * q - x \<le> x / 2 ^ 53" using rel by (rule abs_le_D1)
  then have "of_int m * q \<le> x + x / 2 ^ 53" by linarith
  also have "x / 2 ^ 53 \<le> x" using x0 by (simp add: divide_le_eq)
  then have "x + x / 2 ^ 53 \<le> 2 * x" by linarith
  also have "\<dots> \<le> 2 * 2 ^ 1000" using assms(2) by simp
  also have "\<dots> < overflow" by (simp add: overflow_def)
  finally have "\<not> overflow \<le> of_int m * q" by simp
  then have "toDouble x = Finite (of_int m * q)"
    using e by (simp add: toDouble_pos [OF x0] Let_def q_def m_def max_absorb1)
  with rel show ?thesis by blast
qed

lemma roundHalfEven_near:
  assumes "\<bar>y - of_int m\<bar> < 1 / 2"
  shows "roundHalfEven y = m"
proof -
  define r where "r = roundHalfEven y"
  have "\<bar>of_int r - y\<bar> \<le> 1 / 2" unfolding r_def by (rule roundHalfEven_err)
  with assms have "(of_int r :: rat) < of_int m + 1" "(of_int m :: rat) < of_int r + 1"
    by linarith+
  then have "(of_int r :: rat) < of_int (m + 1)" "(of_int m :: rat) < of_int (r + 1)"
    by simp_all
  then have "r < m + 1" "m < r + 1" by (simp_all only: of_int_less_iff)
  then show ?thesis unfolding r_def by simp
qed

lemma toDouble_at:
  assumes "2 powi e \<le> x" and "x < 2 powi (e + 1)" and "- 1022 \<le> e" and "e \<le> 999"
    and "\<bar>x / 2 powi (e - 52) - of_int m\<bar> < 1 / 2"
  shows "toDouble x = Finite (of_int m * 2 powi (e - 52))"
proof -
  have ex: "expo x = e" using assms(1,2) by (rule expo_unique)
  have "(2::rat) powi (- 1022) \<le> 2 powi e" using assms(3) by (intro power_int_increasing) simp_all
  then have xl: "2 powi (- 1022) \<le> x" using assms(1) by (rule order_trans)
  have x0: "0 < x" using assms(1) by (rule less_le_trans [rotated]) simp
  have "(2::rat) powi (e + 1) \<le> 2 powi 1000" using assms(4) by (intro power_int_increasing) simp_all
  also have "\<dots> = 2 ^ 1000" by (simp only: power_int_numeral)
  finally have xu: "x \<le> 2 ^ 1000" using assms(2) by (simp only: order_trans [OF less_imp_le])
  obtain y where y: "toDouble x = Finite y" using toDouble_normal [OF xl xu] by blast
  have r: "roundHalfEven (x / 2 powi (e - 52)) = m" using assms(5) by (rule roundHalfEven_near)
  have "toDouble x = (if overflow \<le> of_int m * 2 powi (e - 52) then PosInf
                      else Finite (of_int m * 2 powi (e - 52)))"
    using assms(3) by (simp add: toDouble_pos [OF x0] Let_def ex r max_absorb1)
  with y show ?thesis by (simp split: if_splits)
qed

lemma ofInt_small: "\<bar>i\<bar> < 2 ^ 53 \<Longrightarrow> ofInt i = Finite (of_int i)"
  by (simp add: ofInt_def toDouble_of_int_small)

lemma toDouble_one [simp]: "toDouble 1 = Finite 1"
  using toDouble_of_int_small [of 1] by simp

lemma toDouble_hundred [simp]: "toDouble 100 = Finite 100"
  using toDouble_of_int_small [of 100] by simp

lemma mathRound_int: "mathRound (Finite (of_int k)) = Finite (of_int k)"
proof -
  have "\<lfloor>(of_int k :: rat) + 1 / 2\<rfloor> = k" by linarith
  then show ?thesis by simp
qed

lemma mathRound_numeral: "mathRound (Finite (numeral n)) = Finite (numeral n)"
  using mathRound_int [of "numeral n"] by (simp del: mathRound.simps)

lemma mathRound_zero: "mathRound (Finite 0) = Finite 0"
  using mathRound_int [of 0] by (simp del: mathRound.simps)

lemma jsTimes_one_ofInt: "jsTimes (Finite 1) (ofInt i) = ofInt i"
proof (cases "toDouble (of_int i)")
  case (Finite y)
  then have "toDouble y = Finite y" by (rule toDouble_idem)
  with Finite show ?thesis by (simp add: ofInt_def)
qed (simp_all add: ofInt_def)

lemma mathRound_ofInt: "mathRound (ofInt i) = ofInt i"
proof (cases "toDouble (of_int i)")
  case (Finite y)
  then obtain z where "y = of_int z" using toDouble_of_int_integral by blast
  with Finite show ?thesis by (simp add: ofInt_def mathRound_int del: mathRound.simps)
qed (simp_all add: ofInt_def)

lemma share_of_ten_per_blank:
  assumes "0 < c" and "c \<le> n" and "n < 2 ^ 32"
  shows "mathRound (jsTimes (jsDivide (ofNat c) (ofNat n)) (ofInt (10 * int n)))
           = Finite (of_int (10 * int c))"
proof -
  define x :: rat where "x = of_nat c / of_nat n"
  define t :: rat where "t = 10 * of_nat n"
  define g :: rat where "g = 10 * of_nat c"
  have n0: "0 < n" using assms by simp
  have cr: "(1::rat) \<le> of_nat c" using assms(1) by simp
  have "(of_nat n :: rat) < of_nat (2 ^ 32)" using assms(3) by (simp only: of_nat_less_iff)
  then have nr: "(0::rat) < of_nat n" "(of_nat n :: rat) < 2 ^ 32" "(of_nat c :: rat) \<le> of_nat n"
    using n0 assms(2) by simp_all
  have cu: "(of_nat c :: rat) < 2 ^ 32" using nr by simp
  have xt: "x * t = g" using nr(1) by (simp add: x_def t_def g_def)
  have t0: "0 < t" using nr(1) by (simp add: t_def)
  have g10: "10 \<le> g" "g < 10 * 2 ^ 32" using cr cu by (simp_all add: g_def)
  have x0: "0 < x" using nr(1) cr by (simp add: x_def)
  have "1 / 2 ^ 32 \<le> 1 / (of_nat n :: rat)"
    using nr by (intro divide_left_mono) simp_all
  also have "\<dots> \<le> x" using nr(1) cr by (simp add: x_def divide_right_mono)
  finally have "(2::rat) powi (- 32) \<le> x" by (simp add: power_int_minus_divide)
  moreover have "(2::rat) powi (- 1022) \<le> 2 powi (- 32)" by (intro power_int_increasing) simp_all
  ultimately have xl: "2 powi (- 1022) \<le> x" by simp
  have "x \<le> 1" using nr by (simp add: x_def)
  then have xu: "x \<le> 2 ^ 1000" by (rule order_trans) simp
  from toDouble_normal [OF xl xu] obtain y1 where y1: "toDouble x = Finite y1"
    "\<bar>y1 - x\<bar> \<le> x / 2 ^ 53" by blast
  define p where "p = y1 * t"
  have "p - g = (y1 - x) * t" by (simp add: p_def xt [symmetric] left_diff_distrib)
  then have "\<bar>p - g\<bar> = \<bar>y1 - x\<bar> * t" using t0 by (simp add: abs_mult)
  also have "\<dots> \<le> x / 2 ^ 53 * t" using y1(2) t0 by (intro mult_right_mono) simp_all
  also have "\<dots> = g / 2 ^ 53" using xt by simp
  finally have pg: "\<bar>p - g\<bar> \<le> g / 2 ^ 53" .
  have gh: "g / 2 ^ 53 \<le> g / 2" using g10 by simp
  have "\<bar>p - g\<bar> \<le> g / 2" using pg gh by linarith
  then have pl: "g / 2 \<le> p" and pu: "p \<le> 2 * g" using g10 by linarith+
  have "(2::rat) powi (- 1022) \<le> 2 powi 0" by (intro power_int_increasing) simp_all
  then have "(2::rat) powi (- 1022) \<le> 1" by (simp only: power_int_0_right)
  then have pl': "2 powi (- 1022) \<le> p" using pl g10 by linarith
  have g37: "2 * g \<le> 2 ^ 37" using g10 by simp
  have "(2::rat) ^ 37 \<le> 2 ^ 1000" by (rule power_increasing) simp_all
  with g37 have "2 * g \<le> 2 ^ 1000" by (rule order_trans)
  with pu have pu': "p \<le> 2 ^ 1000" by (rule order_trans)
  from toDouble_normal [OF pl' pu'] obtain y2 where y2: "toDouble p = Finite y2"
    "\<bar>y2 - p\<bar> \<le> p / 2 ^ 53" by blast
  have "p / 2 ^ 53 \<le> 2 * g / 2 ^ 53" using pu by (simp add: divide_right_mono)
  with y2(2) pg have "\<bar>y2 - g\<bar> \<le> 3 * g / 2 ^ 53" by linarith
  also have "\<dots> < 1 / 2" using g10 by simp
  finally have near: "\<bar>y2 - g\<bar> < 1 / 2" .
  have gi: "g = of_int (10 * int c)" by (simp add: g_def)
  have "\<lfloor>y2 + 1 / 2\<rfloor> = 10 * int c"
    using near unfolding gi by (intro floor_unique) linarith+
  moreover have "ofInt (10 * int n) = Finite t"
    using assms(3) by (simp add: ofInt_small t_def)
  moreover have "jsDivide (ofNat c) (ofNat n) = Finite y1"
    using n0 y1(1) by (simp add: ofNat_def x_def)
  ultimately show ?thesis by (simp add: y2(1) p_def [symmetric])
qed

text \<open>
  The two roundings of \<open>(correct / n) * totalPoints\<close> show in a game with 10 blanks and
  45 points, which the form does not store: with 7 blanks right the double quotient is
  below \<open>7 / 10\<close>, the double product is below \<open>31.5\<close>, and the score is 31, where
  rounding the exact product gives 32.
\<close>

lemma seven_tenths: "toDouble (7 / 10) = Finite (6305039478318694 / 2 ^ 53)"
  using toDouble_at [of "- 1" "7 / 10" 6305039478318694]
  by (simp add: power_int_minus_divide)

lemma seven_of_ten_at_45:
  "mathRound (jsTimes (jsDivide (ofNat 7) (ofNat 10)) (ofInt 45)) = Finite 31"
proof -
  have "toDouble (6305039478318694 / 2 ^ 53 * 45) = Finite (8866461766385663 / 2 ^ 48)"
    using toDouble_at [of 4 "6305039478318694 / 2 ^ 53 * 45" 8866461766385663]
    by (simp add: power_int_minus_divide)
  moreover have "\<lfloor>(8866461766385663 :: rat) / 2 ^ 48 + 1 / 2\<rfloor> = 31"
    by (rule floor_unique) simp_all
  moreover have "ofInt 45 = Finite 45" using ofInt_small [of 45] by simp
  ultimately show ?thesis by (simp add: ofNat_def seven_tenths)
qed

lemma exact_seven_of_ten_at_45:
  "\<lfloor>(of_nat 7 :: rat) / of_nat 10 * of_int 45 + 1 / 2\<rfloor> = 32"
  by (rule floor_unique) simp_all

section \<open>Properties of the play engine\<close>

lemma countCorrect_filter:
  "countCorrect filled idx bs c
     = c + length (filter (\<lambda>i. filled (idx + i) = Some (bs ! i)) [0..<length bs])"
proof (induction bs arbitrary: idx c)
  case Nil
  then show ?case by simp
next
  case (Cons a bs)
  have "[0..<length (a # bs)] = 0 # map Suc [0..<length bs]"
    by (simp add: upt_conv_Cons map_Suc_upt del: upt_Suc)
  then show ?case
    by (simp add: Cons.IH filter_map o_def del: upt_Suc)
qed

lemma countCorrect_correctBlanks: "countCorrect filled 0 bs 0 = correctBlanks bs filled"
  by (simp add: countCorrect_filter correctBlanks_def)

lemma correctBlanks_all:
  "\<forall>i<length bs. filled i = Some (bs ! i) \<Longrightarrow> correctBlanks bs filled = length bs"
proof -
  assume a: "\<forall>i<length bs. filled i = Some (bs ! i)"
  have "filter (\<lambda>i. filled i = Some (bs ! i)) [0..<length bs] = [0..<length bs]"
    using a by (intro filter_True) simp
  then show ?thesis by (simp add: correctBlanks_def)
qed

lemma correctBlanks_none: "correctBlanks bs Map.empty = 0"
  by (simp add: correctBlanks_def)

lemma fillinForm_blanks:
  "fillinForm_submit txt ttl dur ident = Some g \<Longrightarrow>
   \<exists>bs. blanks g = Some bs \<and> bs \<noteq> [] \<and> totalPoints g = 10 * int (length bs) \<and>
        bs = matchBlanks txt \<and> content g = txt"
  by (auto simp: fillinForm_submit_def Let_def split: if_splits)

lemma fillInScore_formula:
  "blanks g = Some bs \<Longrightarrow>
   fillInScore g filled = mathRound (jsTimes (jsDivide (ofNat (correctBlanks bs filled))
                             (ofNat (length bs))) (ofInt (totalPoints g)))"
  by (simp add: fillInScore_def blanksOr_def countCorrect_correctBlanks)

lemma correctBlanks_le: "correctBlanks bs filled \<le> length bs"
proof -
  have "length (filter (\<lambda>i. filled i = Some (bs ! i)) [0..<length bs]) \<le> length [0..<length bs]"
    by (rule length_filter_le)
  then show ?thesis by (simp add: correctBlanks_def)
qed

lemma no_share_of_ten_per_blank:
  assumes "0 < n" and "n < 2 ^ 32"
  shows "mathRound (jsTimes (jsDivide (ofNat 0) (ofNat n)) (ofInt (10 * int n))) = Finite 0"
proof -
  have "10 * int n < 10 * 2 ^ 32" using assms(2) by simp
  then have "\<bar>10 * int n\<bar> < 2 ^ 53" by simp
  then have "ofInt (10 * int n) = Finite (of_int (10 * int n))" by (rule ofInt_small)
  then show ?thesis using assms(1) by (simp add: ofNat_def mathRound_zero del: mathRound.simps)
qed

lemma ten_per_correct_blank:
  assumes "c \<le> n" and "0 < n" and "n < 2 ^ 32"
  shows "mathRound (jsTimes (jsDivide (ofNat c) (ofNat n)) (ofInt (10 * int n)))
           = Finite (of_int (10 * int c))"
proof (cases "c = 0")
  case True
  then show ?thesis using no_share_of_ten_per_blank [OF assms(2,3)] by simp
next
  case False
  then have "0 < c" by simp
  then show ?thesis using assms(1,3) by (rule share_of_ten_per_blank)
qed

lemma exact_share:
  assumes "0 < n"
  shows "\<lfloor>(of_nat c :: rat) / of_nat n * of_int (10 * int n) + 1 / 2\<rfloor> = 10 * int c"
proof -
  have "(of_nat c :: rat) / of_nat n * of_int (10 * int n) = of_int (10 * int c)"
    using assms by simp
  then show ?thesis by (simp only:) linarith
qed

text \<open>
  Claim C9. For every fill-in game that the authoring form stores (it stores no game
  without a blank, and fixes the total points at 10 for each blank; an array has fewer
  than \<open>2 ^ 32\<close> elements), the score that \<open>checkFillIn\<close> computes in double arithmetic
  is the rounded product of the share of blanks whose placed word equals the stored
  answer with the total points, which is 10 for each such blank: the two roundings of
  the double division and multiplication never move the result across a half. The exact
  answer in every blank scores the total points, and no placed word scores 0.
\<close>

theorem fillin_score:
  assumes "fillinForm_submit src ttl dur ident = Some g"
    and "length (matchBlanks src) < 2 ^ 32"
  shows "\<exists>bs. blanks g = Some bs \<and> bs = matchBlanks src \<and> bs \<noteq> [] \<and>
           totalPoints g = 10 * int (length bs) \<and>
           (\<forall>filled.
              fillInScore g filled
                = mathRound (jsTimes (jsDivide (ofNat (correctBlanks bs filled)) (ofNat (length bs)))
                                     (ofInt (totalPoints g))) \<and>
              fillInScore g filled
                = Finite (of_int \<lfloor>(of_nat (correctBlanks bs filled) :: rat) / of_nat (length bs)
                                      * of_int (totalPoints g) + 1 / 2\<rfloor>) \<and>
              fillInScore g filled = Finite (of_int (10 * int (correctBlanks bs filled))) \<and>
              ((\<forall>i<length bs. filled i = Some (bs ! i)) \<longrightarrow>
                 fillInScore g filled = Finite (of_int (totalPoints g)))) \<and>
           fillInScore g Map.empty = Finite 0"
proof -
  from fillinForm_blanks [OF assms(1)] obtain bs where
    bs: "blanks g = Some bs" "bs \<noteq> []" "totalPoints g = 10 * int (length bs)"
      "bs = matchBlanks src"
    by blast
  have n: "0 < length bs" "length bs < 2 ^ 32" using bs(2,4) assms(2) by simp_all
  have f: "fillInScore g filled
             = mathRound (jsTimes (jsDivide (ofNat (correctBlanks bs filled)) (ofNat (length bs)))
                                  (ofInt (totalPoints g)))" for filled
    using bs(1) by (rule fillInScore_formula)
  have t: "fillInScore g filled = Finite (of_int (10 * int (correctBlanks bs filled)))" for filled
    unfolding f bs(3) using correctBlanks_le n by (rule ten_per_correct_blank)
  have x: "fillInScore g filled
             = Finite (of_int \<lfloor>(of_nat (correctBlanks bs filled) :: rat) / of_nat (length bs)
                                   * of_int (totalPoints g) + 1 / 2\<rfloor>)" for filled
    unfolding t bs(3) exact_share [OF n(1)] ..
  have a: "fillInScore g filled = Finite (of_int (totalPoints g))"
    if "\<forall>i<length bs. filled i = Some (bs ! i)" for filled
    unfolding t bs(3) correctBlanks_all [OF that] ..
  have z: "fillInScore g Map.empty = Finite 0"
    unfolding t by (simp add: correctBlanks_none)
  from bs f x t a z show ?thesis by blast
qed

lemma exFillin_authored:
  "fillinForm_submit ''[int] x = [5];'' ''Declare'' (Some 5) ''1700000000000'' = Some exFillin"
  by (simp add: fillinForm_submit_def exFillin_def lineTerminator_def)

lemma exFillin_blanks: "matchBlanks ''[int] x = [5];'' = [''int'', ''5'']"
  by (simp add: lineTerminator_def)

theorem fillin_score_witness:
  "fillinForm_submit ''[int] x = [5];'' ''Declare'' (Some 5) ''1700000000000'' = Some exFillin \<and>
   length (matchBlanks ''[int] x = [5];'') < 2 ^ 32 \<and>
   fillInScore exFillin [0 \<mapsto> ''int'', 1 \<mapsto> ''5''] = Finite 20 \<and>
   fillInScore exFillin [0 \<mapsto> ''int'', 1 \<mapsto> ''7''] = Finite 10 \<and>
   fillInScore exFillin Map.empty = Finite 0 \<and>
   totalPoints exFillin = 20"
proof -
  have l: "length (matchBlanks ''[int] x = [5];'') < 2 ^ 32" by (simp add: exFillin_blanks)
  from fillin_score [OF exFillin_authored l] have
    s: "fillInScore exFillin filled
          = Finite (of_int (10 * int (correctBlanks [''int'', ''5''] filled)))" for filled
    by (simp only: exFillin_blanks) blast
  have u: "[0..<2] = [0, 1]" by (simp add: upt_rec)
  have c: "correctBlanks [''int'', ''5''] [0 \<mapsto> ''int'', 1 \<mapsto> ''5''] = 2"
    "correctBlanks [''int'', ''5''] [0 \<mapsto> ''int'', 1 \<mapsto> ''7''] = 1"
    "correctBlanks [''int'', ''5''] Map.empty = 0"
    by (simp_all add: correctBlanks_def u)
  have "fillInScore exFillin [0 \<mapsto> ''int'', 1 \<mapsto> ''5''] = Finite 20"
    "fillInScore exFillin [0 \<mapsto> ''int'', 1 \<mapsto> ''7''] = Finite 10"
    "fillInScore exFillin Map.empty = Finite 0"
    unfolding s c by simp_all
  moreover have "totalPoints exFillin = 20" by (simp add: exFillin_def)
  ultimately show ?thesis using exFillin_authored l by blast
qed

lemma editDistance_same: "editDistance s s = 0"
  by (induction s) simp_all

lemma calculateSimilarity_same: "calculateSimilarity s s = Finite 100"
  by (simp add: calculateSimilarity_def Let_def editDistance_same ofNat_def mathRound_numeral
        del: mathRound.simps)

text \<open>
  Claim C8. Code that is identical to the stored reference solution has similarity 100
  and scores the total points of the game, which is what \<open>checkDebug\<close> saves.
\<close>

theorem debug_identical_full_score:
  assumes "perfectCode g = Some code"
  shows "debugScore g code = (Finite 100, ofInt (totalPoints g)) \<and>
         checkDebug e g (Some code) startT acts
           = saveResult e g (ofInt (totalPoints g)) (ofInt (totalPoints g)) startT acts"
  using assms
  by (simp add: debugScore_def checkDebug_def codeOr_def calculateSimilarity_same Let_def
      jsTimes_one_ofInt mathRound_ofInt del: mathRound.simps)

theorem debug_identical_full_score_witness:
  "perfectCode exDebug = Some ''return a + b;'' \<and>
   debugScore exDebug ''return a + b;'' = (Finite 100, Finite 50)"
proof -
  have p: "perfectCode exDebug = Some ''return a + b;''" by (simp add: exDebug_def)
  have "ofInt (totalPoints exDebug) = Finite 50"
    using ofInt_small [of 50] by (simp add: exDebug_def)
  with debug_identical_full_score [OF p] p show ?thesis
    by simp
qed

lemma getProp_correct_authored: "getProp (parseQuestion f) ''correct'' = Inr None"
  by (simp add: parseQuestion_def)

lemma handleAnswer_authored:
  assumes "quizQuestions (qz_game st) = Some (map parseQuestion nodes)"
    and "qz_index st < length nodes"
  shows "handleAnswer e a st = Inr (quizRender e (st\<lparr> qz_index := qz_index st + 1 \<rparr>))"
  using assms
  by (simp add: handleAnswer_def questionsOr_def getProp_correct_authored strictEqualsIndex_def)

lemma quizRender_fields:
  "qz_game (quizRender e st) = qz_game st" "qz_index (quizRender e st) = qz_index st"
  "qz_score (quizRender e st) = qz_score st"
  by (simp_all add: quizRender_def quizFinish_def Let_def)

lemma answerAll_authored:
  assumes "quizQuestions (qz_game st) = Some (map parseQuestion nodes)"
  shows "qz_index st + length answers \<le> length nodes \<Longrightarrow>
         \<exists>st'. answerAll e answers st = Inr st' \<and> qz_score st' = qz_score st \<and>
               qz_index st' = qz_index st + length answers"
  using assms
proof (induction answers arbitrary: st)
  case Nil
  then show ?case by simp
next
  case (Cons a rest)
  let ?st1 = "quizRender e (st\<lparr> qz_index := qz_index st + 1 \<rparr>)"
  have "qz_index st < length nodes" using Cons.prems(1) by simp
  with Cons.prems(2) have h: "handleAnswer e a st = Inr ?st1"
    by (rule handleAnswer_authored)
  have "\<exists>st'. answerAll e rest ?st1 = Inr st' \<and> qz_score st' = qz_score ?st1 \<and>
               qz_index st' = qz_index ?st1 + length rest"
    using Cons.prems by (intro Cons.IH) (simp_all add: quizRender_fields)
  then show ?case by (simp add: h quizRender_fields)
qed

lemma authored_quiz_scores_nothing:
  assumes "quizForm_submit nodes ttl dur pts ident = Some g"
    and "length answers = length nodes"
  shows "\<exists>st'. answerAll e answers (playQuiz e g acts) = Inr st' \<and> qz_score st' = 0"
proof -
  from assms(1) have q: "quizQuestions g = Some (map parseQuestion nodes)"
    by (auto simp: quizForm_submit_def Let_def split: if_splits)
  let ?st = "playQuiz e g acts"
  have "quizQuestions (qz_game ?st) = Some (map parseQuestion nodes)"
    "qz_index ?st = 0" "qz_score ?st = 0"
    using q by (simp_all add: playQuiz_def quizRender_fields)
  with answerAll_authored [of ?st nodes answers e] assms(2) show ?thesis by auto
qed

text \<open>
  Claim C7 says that answering every question of an authored quiz with its stored
  correct option scores 10 for each question. The form stores the option under
  \<open>correctIndex\<close> and the engine compares with the property \<open>correct\<close>, which no authored
  question has: for the one-question quiz below, answered with its correct option 1,
  the score stays 0 and the saved result has raw score 0.
\<close>

theorem authored_quiz_correct_answer_scores_0:
  "quizForm_submit [exField] ''Sums'' (Some 5) 10 ''1700000000001'' = Some exQuiz \<and>
   getProp (parseQuestion exField) ''correctIndex'' = Inr (Some (JNum 1)) \<and>
   getProp (parseQuestion exField) ''correct'' = Inr None \<and>
   (case answerAll exEnv [1] (playQuiz exEnv exQuiz []) of
      Inl err \<Rightarrow> None | Inr st \<Rightarrow> Some (qz_score st, qz_index st, map rawScore (qz_activities st)))
     = Some (0, 1, [Finite 0])"
  by (simp add: quizForm_submit_def exQuiz_def exField_def parseQuestion_def numOrNull_def
      playQuiz_def quizRender_def quizFinish_def questionsOr_def handleAnswer_def
      strictEqualsIndex_def saveResult_def exEnv_def ofInt_def Let_def)

lemma checkUnjumble_fields:
  "timer (checkUnjumble e st) = timer st"
  "timerInterval (checkUnjumble e st) = timerInterval st"
  "length (activities (checkUnjumble e st)) = length (activities st) + 1"
  "container (checkUnjumble e st) = ResultShown"
  by (simp_all add: checkUnjumble_def saveResult_def Let_def)

lemma ticks_until_expiry:
  "timerInterval st \<Longrightarrow> timer st = int n \<Longrightarrow>
   length (activities (run (replicate (n + 1) (e, Tick)) st)) = length (activities st) + 1 \<and>
   \<not> timerInterval (run (replicate (n + 1) (e, Tick)) st)"
proof (induction n arbitrary: st)
  case 0
  then show ?case by (simp add: timerCallback_def Let_def checkUnjumble_fields)
next
  case (Suc n)
  let ?st1 = "st\<lparr> timer := timer st - 1 \<rparr>"
  have s: "step e Tick st = ?st1" using Suc.prems by (simp add: timerCallback_def Let_def)
  have "length (activities (run (replicate (n + 1) (e, Tick)) ?st1)) = length (activities ?st1) + 1 \<and>
     \<not> timerInterval (run (replicate (n + 1) (e, Tick)) ?st1)"
    using Suc.prems by (intro Suc.IH) simp_all
  then show ?case using s by simp
qed

lemma submit_then_expiry_saves_twice:
  assumes "container st = Playing" and "timerInterval st" and "timer st = int n"
  shows "length (activities (run ((e1, ClickSubmit) # replicate (n + 1) (e2, Tick)) st))
           = length (activities st) + 2"
proof -
  let ?st1 = "checkUnjumble e1 st"
  have "length (activities (run (replicate (n + 1) (e2, Tick)) ?st1)) = length (activities ?st1) + 1"
    using assms ticks_until_expiry [of ?st1 n e2] by (simp add: checkUnjumble_fields)
  then show ?thesis using assms(1) by (simp add: checkUnjumble_fields)
qed

text \<open>
  Claim C6 says that after one finalization a later firing of the timer does nothing.
  \<open>checkUnjumble\<close> leaves the interval registered: in a one-minute game the student
  submits at once, which saves one result, and the interval is still registered; 61
  firings later the countdown is below zero and \<open>checkUnjumble\<close> runs again, which saves a
  second result.
\<close>

theorem timer_expiry_after_submit_saves_again:
  "timerInterval (step exEnv ClickSubmit (playUnjumble exUnjumble exShuffled 0 [])) \<and>
   length (activities (step exEnv ClickSubmit (playUnjumble exUnjumble exShuffled 0 []))) = 1 \<and>
   length (activities (run ((exEnv, ClickSubmit) # replicate 61 (exEnv\<lparr> clock := 61000 \<rparr>, Tick))
                          (playUnjumble exUnjumble exShuffled 0 []))) = 2"
proof -
  let ?st = "playUnjumble exUnjumble exShuffled 0 []"
  have a: "container ?st = Playing" "timerInterval ?st" "timer ?st = int 60" "activities ?st = []"
    by (simp_all add: playUnjumble_def exUnjumble_def durationOr_def)
  have "length (activities (run ((exEnv, ClickSubmit) # replicate (60 + 1) (exEnv\<lparr> clock := 61000 \<rparr>, Tick)) ?st))
          = length (activities ?st) + 2"
    using a(1,2,3) by (rule submit_then_expiry_saves_twice)
  then show ?thesis using a by (simp add: checkUnjumble_fields)
qed

end
